theory Spec2Isabelle
  imports Main "HOL-Library.Sublist"
begin

section \<open>JavaScript values used by index.js\<close>

text \<open>
  A JavaScript string is modelled as a \<open>string\<close>; a \<open>char\<close> stands for one code unit
  below 256. The regular expressions of the program mention ASCII characters only, so a
  code unit outside that range behaves like any other character that does not match.
  A property that may be \<open>undefined\<close> is an \<open>option\<close>. The fields \<open>canvas_w\<close> and
  \<open>canvas_h\<close> hold either a string or the number 0, so they get a value type of their
  own. Numbers are natural numbers: the program only meets digit strings and image sizes.
\<close>

datatype jsval = JUndefined | JNum nat | JStr string

text \<open>String concatenation and \<open>RegExp.test\<close> convert \<open>undefined\<close> to the text "undefined".\<close>

definition ToString :: "string option \<Rightarrow> string" where
  "ToString v = (case v of None \<Rightarrow> ''undefined'' | Some s \<Rightarrow> s)"

text \<open>\<open>a[i]\<close> on an array: \<open>undefined\<close> out of range.\<close>

definition idx :: "'a list \<Rightarrow> nat \<Rightarrow> 'a option" where
  "idx xs i = (if i < length xs then Some (xs ! i) else None)"

text \<open>\<open>s.split(sep)\<close> for a separator of one character: never the empty array.\<close>

fun split :: "char \<Rightarrow> string \<Rightarrow> string list" where
  "split sep [] = [[]]"
| "split sep (c # cs) =
     (if c = sep then [] # split sep cs
      else (case split sep cs of [] \<Rightarrow> [[c]] | p # ps \<Rightarrow> (c # p) # ps))"

definition is_digit :: "char \<Rightarrow> bool" where
  "is_digit c = (c \<in> set ''0123456789'')"

definition is_hex :: "char \<Rightarrow> bool" where
  "is_hex c = (c \<in> set ''0123456789abcdef'')"

text \<open>
  Case folding of a regular expression with the \<open>i\<close> flag (Canonicalize): the character is
  upper-cased, and a code unit of 128 or more is never folded to one below 128. On the
  ASCII letters of the patterns only \<open>a\<close> to \<open>z\<close> are affected.
\<close>

definition Canonicalize :: "char \<Rightarrow> char" where
  "Canonicalize c =
     (let n = (of_char c :: nat) in
      if 97 \<le> n \<and> n \<le> 122 then char_of (n - 32)
      else if 224 \<le> n \<and> n \<le> 254 \<and> n \<noteq> 247 then char_of (n - 32)
      else c)"

text \<open>\<open>String.prototype.toLowerCase\<close> on code units below 256.\<close>

definition toLowerCase_char :: "char \<Rightarrow> char" where
  "toLowerCase_char c =
     (let n = (of_char c :: nat) in
      if 65 \<le> n \<and> n \<le> 90 then char_of (n + 32)
      else if 192 \<le> n \<and> n \<le> 222 \<and> n \<noteq> 215 then char_of (n + 32)
      else c)"

definition toLowerCase :: "string \<Rightarrow> string" where
  "toLowerCase s = map toLowerCase_char s"

text \<open>The value of a string of decimal digits.\<close>

definition dec :: "string \<Rightarrow> nat" where
  "dec s = foldl (\<lambda>a c. 10 * a + (of_char c - 48)) 0 s"

text \<open>
  ToNumber, \<open>None\<close> standing for NaN. Only the empty string and digit strings are converted:
  the strings that reach a numeric comparison have passed the pattern of line 306, so
  signs, blanks, fractions, exponents and hexadecimal literals never occur.
\<close>

definition ToNumber :: "jsval \<Rightarrow> nat option" where
  "ToNumber v =
     (case v of
        JUndefined \<Rightarrow> None
      | JNum n \<Rightarrow> Some n
      | JStr s \<Rightarrow> (if list_all is_digit s then Some (dec s) else None))"

text \<open>\<open>a < b\<close> and \<open>a > b\<close> on numbers: false when either side is NaN.\<close>

definition js_less :: "nat option \<Rightarrow> nat option \<Rightarrow> bool" where
  "js_less a b = (case (a, b) of (Some x, Some y) \<Rightarrow> x < y | _ \<Rightarrow> False)"

text \<open>Truthiness of a value: \<open>undefined\<close>, 0 and the empty string are falsy.\<close>

definition truthy :: "jsval \<Rightarrow> bool" where
  "truthy v = (case v of JUndefined \<Rightarrow> False | JNum n \<Rightarrow> n \<noteq> 0 | JStr s \<Rightarrow> s \<noteq> [])"

text \<open>\<open>x || ''\<close> on a string that may be undefined.\<close>

definition or_empty :: "string option \<Rightarrow> string" where
  "or_empty v = (case v of None \<Rightarrow> [] | Some s \<Rightarrow> s)"

text \<open>\<open>x || 0\<close> on a string.\<close>

definition or_zero :: "string \<Rightarrow> jsval" where
  "or_zero s = (if s = [] then JNum 0 else JStr s)"

section \<open>The regular expressions of the constructor\<close>

text \<open>\<^verbatim>\<open>/^fi(t|ll)$/i\<close>\<close>

definition re_cover :: "string \<Rightarrow> bool" where
  "re_cover s = (map Canonicalize s = ''FIT'' \<or> map Canonicalize s = ''FILL'')"

text \<open>
  \<^verbatim>\<open>/^([0-9]+x[0-9]*|[0-9]*x[0-9]+)$/\<close>: digits, one \<open>x\<close>, digits, with a digit on at
  least one side. As \<open>x\<close> is no digit, the leading digits are found by \<open>takeWhile\<close>.
\<close>

definition re_canvas :: "string \<Rightarrow> bool" where
  "re_canvas s =
     (case dropWhile is_digit s of
        [] \<Rightarrow> False
      | c # r \<Rightarrow> c = CHR ''x'' \<and> list_all is_digit r \<and> (takeWhile is_digit s \<noteq> [] \<or> r \<noteq> []))"

text \<open>\<^verbatim>\<open>/^(jpg|png|gif|)$/i\<close>\<close>

definition re_format :: "string \<Rightarrow> bool" where
  "re_format s =
     (map Canonicalize s = ''JPG'' \<or> map Canonicalize s = ''PNG''
      \<or> map Canonicalize s = ''GIF'' \<or> s = [])"

text \<open>\<^verbatim>\<open>/^([0-9a-f]{3}|[0-9a-f]{6})$/\<close>\<close>

definition re_color :: "string \<Rightarrow> bool" where
  "re_color s = ((length s = 3 \<or> length s = 6) \<and> list_all is_hex s)"

section \<open>class ResizeStyle\<close>

record ResizeStyle =
  enable :: bool
  cover :: "string option"
  canvas_w_string :: "string option"
  canvas_h_string :: "string option"
  canvas_w :: jsval
  canvas_h :: jsval
  format :: "string option"
  background :: "string option"

definition separator :: char where
  "separator = CHR ''.''"

definition maxDimension :: nat where
  "maxDimension = 2048"

text \<open>The object before the constructor has assigned anything but \<open>enable\<close>.\<close>

definition fresh :: ResizeStyle where
  "fresh = \<lparr>enable = True, cover = None, canvas_w_string = None, canvas_h_string = None,
            canvas_w = JUndefined, canvas_h = JUndefined, format = None, background = None\<rparr>"

text \<open>
  The constructor (lines 291 to 334). The handler always passes a string
  (\<open>request[1] || ''\<close>), so the \<open>typeof\<close> branch of line 295 is not taken and the argument
  has type \<open>string\<close>. Each early \<open>return\<close> leaves the later fields undefined. Line 310
  splits \<open>arr[1]\<close>, which is defined there: the text "undefined" fails the test of line 306.
\<close>

definition ResizeStyle_new :: "string \<Rightarrow> ResizeStyle" where
  "ResizeStyle_new params =
     (let arr = split separator params in
      if \<not> re_cover (ToString (idx arr 0)) then fresh\<lparr>enable := False\<rparr>
      else if \<not> re_canvas (ToString (idx arr 1))
        then fresh\<lparr>enable := False, cover := idx arr 0\<rparr>
      else
        let canvas = split (CHR ''x'') (ToString (idx arr 1));
            ws = or_empty (idx canvas 0);
            hs = or_empty (idx canvas 1);
            s = fresh\<lparr>cover := idx arr 0,
                      canvas_w_string := Some ws, canvas_h_string := Some hs,
                      canvas_w := or_zero ws, canvas_h := or_zero hs\<rparr>
        in
          if js_less (Some maxDimension) (ToNumber (canvas_w s))
             \<or> js_less (Some maxDimension) (ToNumber (canvas_h s))
          then s\<lparr>enable := False\<rparr>
          else s\<lparr>format := (if re_format (ToString (idx arr 2)) then idx arr 2
                              else Some ''jpg''),
                  background := (if re_color (ToString (idx arr 3)) then idx arr 3
                                 else Some ''none'')\<rparr>)"

definition isValid :: "ResizeStyle \<Rightarrow> bool" where
  "isValid s = enable s"

definition isKeepAspect :: "ResizeStyle \<Rightarrow> bool" where
  "isKeepAspect s = (\<not> truthy (canvas_w s) \<or> \<not> truthy (canvas_h s))"

definition getIndexName :: "ResizeStyle \<Rightarrow> string" where
  "getIndexName s =
     toLowerCase
       (if isValid s
        then ToString (cover s) @ [separator]
             @ ToString (canvas_w_string s) @ ''x''
             @ ToString (canvas_h_string s) @ [separator]
             @ ToString (format s) @ [separator]
             @ ToString (background s)
        else ''full'')"

definition getWidth :: "ResizeStyle \<Rightarrow> jsval" where
  "getWidth s = canvas_w s"

definition getHeight :: "ResizeStyle \<Rightarrow> jsval" where
  "getHeight s = canvas_h s"

definition getFormat :: "ResizeStyle \<Rightarrow> string option" where
  "getFormat s = format s"

definition getContentType :: "ResizeStyle \<Rightarrow> string" where
  "getContentType s =
     (if format s = Some ''jpg'' then ''image/jpeg'' else ''image/'' @ ToString (format s))"

definition getColor :: "ResizeStyle \<Rightarrow> string" where
  "getColor s =
     (if background s = Some ''none'' then ToString (background s)
      else ''#'' @ ToString (background s))"

text \<open>
  \<open>getResizeData\<close> (lines 391 to 430). The source sizes are numbers; the target sizes are
  whatever \<open>getWidth\<close> and \<open>getHeight\<close> return, compared numerically and returned as they
  are. \<open>this.cover === 'fit'\<close> is strict equality with the lower-case text.
\<close>

definition getResizeData :: "ResizeStyle \<Rightarrow> nat \<Rightarrow> nat \<Rightarrow> jsval \<times> jsval" where
  "getResizeData s original_w original_h =
     (if original_w < original_h then
        (if cover s = Some ''fit'' then
           (JNum 0,
            if js_less (Some original_h) (ToNumber (getHeight s)) then JNum original_h
            else getHeight s)
         else
           (if js_less (Some original_w) (ToNumber (getWidth s)) then JNum original_w
            else getWidth s,
            JNum 0))
      else
        (if cover s = Some ''fit'' then
           (if js_less (Some original_w) (ToNumber (getWidth s)) then JNum original_w
            else getWidth s,
            JNum 0)
         else
           (JNum 0,
            if js_less (Some original_h) (ToNumber (getHeight s)) then JNum original_h
            else getHeight s)))"

section \<open>The response envelope and the exception classes\<close>

record Payload =
  statusCode :: nat
  headers :: "(string \<times> string) list"
  isBase64Encoded :: bool
  body :: string

definition Payload_new :: Payload where
  "Payload_new = \<lparr>statusCode = 200, headers = [], isBase64Encoded = True, body = []\<rparr>"

text \<open>\<open>Buffer.toString('base64')\<close>: the standard alphabet, padded with \<open>=\<close>.\<close>

definition b64digit :: "nat \<Rightarrow> char" where
  "b64digit n =
     ''ABCDEFGHIJKLMNOPQRSTUVWXYZabcdefghijklmnopqrstuvwxyz0123456789+/'' ! (n mod 64)"

fun base64 :: "string \<Rightarrow> string" where
  "base64 (a # b # c # r) =
     (let x = (of_char a :: nat); y = (of_char b :: nat); z = (of_char c :: nat) in
      [b64digit (x div 4), b64digit ((x mod 4) * 16 + y div 16),
       b64digit ((y mod 16) * 4 + z div 64), b64digit (z mod 64)] @ base64 r)"
| "base64 [a, b] =
     (let x = (of_char a :: nat); y = (of_char b :: nat) in
      [b64digit (x div 4), b64digit ((x mod 4) * 16 + y div 16),
       b64digit ((y mod 16) * 4), CHR ''=''])"
| "base64 [a] =
     (let x = (of_char a :: nat) in
      [b64digit (x div 4), b64digit ((x mod 4) * 16), CHR ''='', CHR ''=''])"
| "base64 [] = []"

text \<open>
  \<open>ExistCacheException\<close>, \<open>CouldNotResizeException\<close> and \<open>Magicked\<close> build the same
  envelope (lines 442 to 497); \<open>new Buffer(body, 'binary')\<close> copies the buffer it is given.
\<close>

definition envelope :: "string \<Rightarrow> string \<Rightarrow> Payload" where
  "envelope buf contentType =
     Payload_new\<lparr>statusCode := 200, headers := [(''Content-Type'', contentType)],
                 body := base64 buf\<rparr>"

datatype exception =
    ExistCacheException Payload
  | NotFoundException
  | CouldNotResizeException Payload
  | UploadFailedException
  | ResizeFailedException
  | ConvertFailedException
  | DeletedException

definition ExistCacheException_new :: "string \<Rightarrow> string \<Rightarrow> exception" where
  "ExistCacheException_new buf contentType = ExistCacheException (envelope buf contentType)"

definition CouldNotResizeException_new :: "string \<Rightarrow> string \<Rightarrow> exception" where
  "CouldNotResizeException_new buf contentType =
     CouldNotResizeException (envelope buf contentType)"

definition Magicked_new :: "string \<Rightarrow> string \<Rightarrow> Payload" where
  "Magicked_new buf contentType = envelope buf contentType"

fun message :: "exception \<Rightarrow> string option" where
  "message NotFoundException = Some ''Not Found Exception''"
| "message UploadFailedException = Some ''Upload Failed Exception''"
| "message ResizeFailedException = Some ''Resize Failed Exception''"
| "message ConvertFailedException = Some ''Convert Failed Exception''"
| "message DeletedException = Some ''Deleted Exception''"
| "message (ExistCacheException p) = None"
| "message (CouldNotResizeException p) = None"

section \<open>The collaborators: object store, image tool, file system, console\<close>

text \<open>
  The handler talks to libraries that are not part of the repository. They are modelled
  as a world that the calls read and change, plus an environment that fixes, for one
  request, which calls fail and what the image tool computes. Every call is recorded in
  the trace, in order.
\<close>

datatype js_error = Error string

record s3_object =
  Body :: string
  ContentType :: string
  Metadata :: "(string \<times> string) list"

datatype event =
    S3GetObject string string
  | S3PutObject string string string string
  | ImResize string jsval jsval "string option"
  | ImIdentify string
  | ImConvert "string list"
  | FsWriteFile string string
  | FsReadFile string
  | ConsoleLog jsval

record world =
  objects :: "string \<times> string \<Rightarrow> s3_object option"
  files :: "string \<Rightarrow> string option"
  trace :: "event list"

record env =
  TEMP_DIR :: string
  BUCKET_ORIGINAL :: string
  BUCKET_CACHE :: string
  KEY_ORIGINAL :: string
  KEY_CACHE :: string
  s3_get_fault :: "string \<Rightarrow> string \<Rightarrow> js_error option"
  s3_put_fault :: "string \<Rightarrow> string \<Rightarrow> js_error option"
  im_resize :: "string \<Rightarrow> jsval \<Rightarrow> jsval \<Rightarrow> string option \<Rightarrow> js_error + string"
  im_identify :: "string \<Rightarrow> js_error + nat \<times> nat"
  im_convert :: "string list \<Rightarrow> (string \<Rightarrow> string option) \<Rightarrow> js_error + (string \<Rightarrow> string option)"
  fs_write_fault :: "string \<Rightarrow> js_error option"
  fs_read_fault :: "string \<Rightarrow> js_error option"

definition record_event :: "event \<Rightarrow> world \<Rightarrow> world" where
  "record_event e w = w\<lparr>trace := trace w @ [e]\<rparr>"

text \<open>
  \<open>s3.getObject\<close>: fails with the error the environment dictates, or with a missing-key
  error when the bucket holds nothing under the key; otherwise yields the stored object.
\<close>

definition s3_getObject ::
  "env \<Rightarrow> string \<Rightarrow> string \<Rightarrow> world \<Rightarrow> (js_error + s3_object) \<times> world" where
  "s3_getObject ev bucket key w =
     (let w' = record_event (S3GetObject bucket key) w in
      case s3_get_fault ev bucket key of
        Some e \<Rightarrow> (Inl e, w')
      | None \<Rightarrow>
         (case objects w (bucket, key) of
            None \<Rightarrow> (Inl (Error ''NoSuchKey''), w')
          | Some obj \<Rightarrow> (Inr obj, w')))"

text \<open>\<open>s3.putObject\<close>: fails, or stores the object under the key.\<close>

definition s3_putObject ::
  "env \<Rightarrow> string \<Rightarrow> string \<Rightarrow> string \<Rightarrow> string \<Rightarrow> world \<Rightarrow> js_error option \<times> world" where
  "s3_putObject ev bucket key buf contentType w =
     (let w' = record_event (S3PutObject bucket key buf contentType) w in
      case s3_put_fault ev bucket key of
        Some e \<Rightarrow> (Some e, w')
      | None \<Rightarrow>
         (None, w'\<lparr>objects := (objects w')((bucket, key) \<mapsto>
                      \<lparr>Body = buf, ContentType = contentType, Metadata = []\<rparr>)\<rparr>))"

definition fs_writeFile :: "env \<Rightarrow> string \<Rightarrow> string \<Rightarrow> world \<Rightarrow> js_error option \<times> world" where
  "fs_writeFile ev path data w =
     (let w' = record_event (FsWriteFile path data) w in
      case fs_write_fault ev path of
        Some e \<Rightarrow> (Some e, w')
      | None \<Rightarrow> (None, w'\<lparr>files := (files w')(path \<mapsto> data)\<rparr>))"

definition fs_readFile :: "env \<Rightarrow> string \<Rightarrow> world \<Rightarrow> (js_error + string) \<times> world" where
  "fs_readFile ev path w =
     (let w' = record_event (FsReadFile path) w in
      case fs_read_fault ev path of
        Some e \<Rightarrow> (Inl e, w')
      | None \<Rightarrow>
         (case files w path of
            None \<Rightarrow> (Inl (Error ''ENOENT''), w')
          | Some data \<Rightarrow> (Inr data, w')))"

definition im_convert_call :: "env \<Rightarrow> string list \<Rightarrow> world \<Rightarrow> js_error option \<times> world" where
  "im_convert_call ev args w =
     (let w' = record_event (ImConvert args) w in
      case im_convert ev args (files w) of
        Inl e \<Rightarrow> (Some e, w')
      | Inr fs \<Rightarrow> (None, w'\<lparr>files := fs\<rparr>))"

definition console_log :: "jsval \<Rightarrow> world \<Rightarrow> world" where
  "console_log v w = record_event (ConsoleLog v) w"

text \<open>Number to string, and string concatenation with a value.\<close>

fun digits10 :: "nat \<Rightarrow> string" where
  "digits10 n =
     (if n < 10 then [char_of (48 + n)] else digits10 (n div 10) @ [char_of (48 + n mod 10)])"

definition ToStringV :: "jsval \<Rightarrow> string" where
  "ToStringV v = (case v of JUndefined \<Rightarrow> ''undefined'' | JNum n \<Rightarrow> digits10 n | JStr s \<Rightarrow> s)"

section \<open>exports.handler\<close>

text \<open>\<open>download\<close> (lines 35 to 43) and \<open>upload\<close> (lines 51 to 60).\<close>

definition download ::
  "env \<Rightarrow> string \<Rightarrow> string \<Rightarrow> world \<Rightarrow> (js_error + string \<times> string \<times> s3_object) \<times> world" where
  "download ev bucket key w =
     (case s3_getObject ev bucket key w of
        (Inl e, w') \<Rightarrow> (Inl e, w')
      | (Inr resp, w') \<Rightarrow> (Inr (Body resp, ContentType resp, resp), w'))"

definition upload ::
  "env \<Rightarrow> string \<Rightarrow> string \<Rightarrow> string \<Rightarrow> world \<Rightarrow> js_error option \<times> world" where
  "upload ev cachePath buf contentType w =
     s3_putObject ev (BUCKET_CACHE ev) (KEY_CACHE ev @ cachePath) buf contentType w"

text \<open>\<open>resize\<close> (lines 68 to 82): one call of the image tool with the target sizes.\<close>

definition resize ::
  "env \<Rightarrow> ResizeStyle \<Rightarrow> string \<Rightarrow> world \<Rightarrow> (js_error + string \<times> string) \<times> world" where
  "resize ev resizeStyle buf w =
     (let w1 = record_event (ImResize buf (getWidth resizeStyle) (getHeight resizeStyle)
                               (getFormat resizeStyle)) w in
      case im_resize ev buf (getWidth resizeStyle) (getHeight resizeStyle)
             (getFormat resizeStyle) of
        Inl e \<Rightarrow> (Inl e, w1)
      | Inr stdout \<Rightarrow> (Inr (stdout, getContentType resizeStyle), w1))"

text \<open>
  \<open>convert\<close> (lines 90 to 164): identify, resize to the sizes of \<open>getResizeData\<close>, write
  the result to a file, make the canvas, composite, read the composite back.
\<close>

definition convert ::
  "env \<Rightarrow> ResizeStyle \<Rightarrow> string \<Rightarrow> string \<Rightarrow> world \<Rightarrow> (js_error + string \<times> string) \<times> world" where
  "convert ev resizeStyle basename buf w =
     (let tmpResized = TEMP_DIR ev @ basename @ ''_'' @ getIndexName resizeStyle;
          tmpCanvas = tmpResized @ ''_canvas.'' @ ToString (getFormat resizeStyle);
          tmpComposite = tmpResized @ ''_composite.'' @ ToString (getFormat resizeStyle);
          w1 = record_event (ImIdentify buf) w
      in case im_identify ev buf of
           Inl e \<Rightarrow> (Inl e, w1)
         | Inr (original_w, original_h) \<Rightarrow>
            (let (resized_w, resized_h) = getResizeData resizeStyle original_w original_h;
                 w2 = record_event
                        (ImResize buf resized_w resized_h (getFormat resizeStyle)) w1
             in case im_resize ev buf resized_w resized_h (getFormat resizeStyle) of
                  Inl e \<Rightarrow> (Inl e, w2)
                | Inr output \<Rightarrow>
                   (case fs_writeFile ev tmpResized output w2 of
                      (Some e, w3) \<Rightarrow> (Inl e, w3)
                    | (None, w3) \<Rightarrow>
                       (case im_convert_call ev
                               [''-size'',
                                ToStringV (getWidth resizeStyle) @ ''x''
                                  @ ToStringV (getHeight resizeStyle),
                                ''xc:'' @ getColor resizeStyle,
                                tmpCanvas] w3 of
                          (Some e, w4) \<Rightarrow> (Inl e, w4)
                        | (None, w4) \<Rightarrow>
                           (case im_convert_call ev
                                   [tmpCanvas, tmpResized, ''-gravity'', ''center'',
                                    ''-composite'', tmpComposite] w4 of
                              (Some e, w5) \<Rightarrow> (Inl e, w5)
                            | (None, w5) \<Rightarrow>
                               (case fs_readFile ev tmpComposite w5 of
                                  (Inl e, w6) \<Rightarrow> (Inl e, w6)
                                | (Inr data, w6) \<Rightarrow>
                                   (Inr (data, getContentType resizeStyle), w6)))))))"

text \<open>\<open>response.Metadata.deleted\<close> as a condition: any non-empty value counts.\<close>

definition metadata_deleted :: "s3_object \<Rightarrow> bool" where
  "metadata_deleted resp =
     truthy (case map_of (Metadata resp) ''deleted'' of None \<Rightarrow> JUndefined | Some v \<Rightarrow> JStr v)"

text \<open>
  The five tasks of \<open>async.waterfall\<close> (lines 166 to 252). A task either passes its
  values on (\<open>Inr\<close>) or hands an exception object to the final callback (\<open>Inl\<close>).
\<close>

definition task_cache :: "env \<Rightarrow> string \<Rightarrow> world \<Rightarrow> (exception + unit) \<times> world" where
  "task_cache ev cachePath w =
     (case download ev (BUCKET_CACHE ev) (KEY_CACHE ev @ cachePath) w of
        (Inl e, w') \<Rightarrow> (Inr (), w')
      | (Inr (buf, contentType, resp), w') \<Rightarrow>
          (Inl (ExistCacheException_new buf contentType), w'))"

definition task_original ::
  "env \<Rightarrow> string \<Rightarrow> world \<Rightarrow> (exception + string \<times> string) \<times> world" where
  "task_original ev originalPath w =
     (case download ev (BUCKET_ORIGINAL ev) (KEY_ORIGINAL ev @ originalPath) w of
        (Inl e, w') \<Rightarrow> (Inl NotFoundException, w')
      | (Inr (buf, contentType, resp), w') \<Rightarrow>
          (if metadata_deleted resp then (Inl DeletedException, w')
           else (Inr (buf, contentType), w')))"

definition task_validate ::
  "env \<Rightarrow> ResizeStyle \<Rightarrow> string \<Rightarrow> string \<Rightarrow> string \<Rightarrow> world
     \<Rightarrow> (exception + string \<times> string) \<times> world" where
  "task_validate ev resizeStyle cachePath buf contentType w =
     (if \<not> isValid resizeStyle then
        (case upload ev cachePath buf contentType w of
           (Some e, w') \<Rightarrow> (Inl UploadFailedException, w')
         | (None, w') \<Rightarrow> (Inl (CouldNotResizeException_new buf contentType), w'))
      else (Inr (buf, contentType), w))"

definition task_resize ::
  "env \<Rightarrow> ResizeStyle \<Rightarrow> string \<Rightarrow> string \<Rightarrow> string \<Rightarrow> world
     \<Rightarrow> (exception + string \<times> string) \<times> world" where
  "task_resize ev resizeStyle basename buf contentType w =
     (if isKeepAspect resizeStyle then
        (case resize ev resizeStyle buf w of
           (Inl e, w') \<Rightarrow> (Inl ResizeFailedException, w')
         | (Inr r, w') \<Rightarrow> (Inr r, w'))
      else
        (case convert ev resizeStyle basename buf w of
           (Inl e, w') \<Rightarrow> (Inl ConvertFailedException, w')
         | (Inr r, w') \<Rightarrow> (Inr r, w')))"

definition task_store ::
  "env \<Rightarrow> string \<Rightarrow> string \<Rightarrow> string \<Rightarrow> world \<Rightarrow> (exception + Payload) \<times> world" where
  "task_store ev cachePath buf contentType w =
     (case upload ev cachePath buf contentType w of
        (Some e, w') \<Rightarrow> (Inl UploadFailedException, w')
      | (None, w') \<Rightarrow> (Inr (Magicked_new buf contentType), w'))"

text \<open>The tasks from the second one on: what runs after a cache miss.\<close>

definition from_original ::
  "env \<Rightarrow> ResizeStyle \<Rightarrow> string \<Rightarrow> string \<Rightarrow> string \<Rightarrow> world
     \<Rightarrow> (exception + Payload) \<times> world" where
  "from_original ev resizeStyle basename cachePath originalPath w =
     (case task_original ev originalPath w of
        (Inl x, w2) \<Rightarrow> (Inl x, w2)
      | (Inr (buf, contentType), w2) \<Rightarrow>
         (case task_validate ev resizeStyle cachePath buf contentType w2 of
            (Inl x, w3) \<Rightarrow> (Inl x, w3)
          | (Inr (buf3, contentType3), w3) \<Rightarrow>
             (case task_resize ev resizeStyle basename buf3 contentType3 w3 of
                (Inl x, w4) \<Rightarrow> (Inl x, w4)
              | (Inr (buf4, contentType4), w4) \<Rightarrow>
                  task_store ev cachePath buf4 contentType4 w4)))"

definition waterfall ::
  "env \<Rightarrow> ResizeStyle \<Rightarrow> string \<Rightarrow> string \<Rightarrow> string \<Rightarrow> world
     \<Rightarrow> (exception + Payload) \<times> world" where
  "waterfall ev resizeStyle basename cachePath originalPath w =
     (case task_cache ev cachePath w of
        (Inl x, w1) \<Rightarrow> (Inl x, w1)
      | (Inr u, w1) \<Rightarrow> from_original ev resizeStyle basename cachePath originalPath w1)"

text \<open>
  The outcome of a request: the exception object the waterfall ended with, if any, and the
  payload given to the Lambda callback, if the callback was called at all.
\<close>

record outcome =
  waterfall_err :: "exception option"
  callback_payload :: "Payload option"

text \<open>
  The final callback (lines 254 to 279). Four exception classes only log their message;
  two carry a payload and answer with it; \<open>DeletedException\<close> matches no branch.
\<close>

fun final :: "(exception + Payload) \<Rightarrow> world \<Rightarrow> outcome \<times> world" where
  "final (Inl x) w =
     (let w1 = console_log (JStr ''catch exception'') w in
      case x of
        NotFoundException \<Rightarrow>
          (\<lparr>waterfall_err = Some x, callback_payload = None\<rparr>,
           console_log (JStr (ToString (message x))) w1)
      | UploadFailedException \<Rightarrow>
          (\<lparr>waterfall_err = Some x, callback_payload = None\<rparr>,
           console_log (JStr (ToString (message x))) w1)
      | ResizeFailedException \<Rightarrow>
          (\<lparr>waterfall_err = Some x, callback_payload = None\<rparr>,
           console_log (JStr (ToString (message x))) w1)
      | ConvertFailedException \<Rightarrow>
          (\<lparr>waterfall_err = Some x, callback_payload = None\<rparr>,
           console_log (JStr (ToString (message x))) w1)
      | ExistCacheException p \<Rightarrow>
          (\<lparr>waterfall_err = Some x, callback_payload = Some p\<rparr>,
           console_log (JNum (statusCode p)) w1)
      | CouldNotResizeException p \<Rightarrow>
          (\<lparr>waterfall_err = Some x, callback_payload = Some p\<rparr>,
           console_log (JNum (statusCode p)) w1)
      | DeletedException \<Rightarrow>
          (\<lparr>waterfall_err = Some x, callback_payload = None\<rparr>, w1))"
| "final (Inr magicked) w =
     (\<lparr>waterfall_err = None, callback_payload = Some magicked\<rparr>,
      console_log (JNum (statusCode magicked)) w)"

text \<open>
  The handler (lines 9 to 281). Its input is \<open>event.pathParameters.filename\<close>;
  \<open>request[0]\<close> always exists, \<open>request[1] || ''\<close> is the style token.
\<close>

definition filename_of :: "string \<Rightarrow> string" where
  "filename_of path = ToString (idx (split (CHR ''/'') path) 0)"

definition params_of :: "string \<Rightarrow> string" where
  "params_of path = or_empty (idx (split (CHR ''/'') path) 1)"

definition handler :: "env \<Rightarrow> string \<Rightarrow> world \<Rightarrow> outcome \<times> world" where
  "handler ev path w =
     (let request = split (CHR ''/'') path;
          filename = ToString (idx request 0);
          params = or_empty (idx request 1);
          resizeStyle = ResizeStyle_new params;
          basename = filename;
          cachePath = filename @ ''_'' @ getIndexName resizeStyle;
          originalPath = filename
      in case waterfall ev resizeStyle basename cachePath originalPath w of
           (r, w') \<Rightarrow> final r w')"

section \<open>A small environment and world for concrete runs\<close>

text \<open>
  No call fails unless an example says so; the image tool always fails, which the examples
  below never reach.
\<close>

definition example_env :: env where
  "example_env =
     \<lparr>TEMP_DIR = ''/tmp/'', BUCKET_ORIGINAL = ''origin'', BUCKET_CACHE = ''cache'',
      KEY_ORIGINAL = ''o/'', KEY_CACHE = ''c/'',
      s3_get_fault = (\<lambda>b k. None), s3_put_fault = (\<lambda>b k. None),
      im_resize = (\<lambda>d w h f. Inl (Error ''resize'')),
      im_identify = (\<lambda>d. Inl (Error ''identify'')),
      im_convert = (\<lambda>a fs. Inl (Error ''convert'')),
      fs_write_fault = (\<lambda>p. None), fs_read_fault = (\<lambda>p. None)\<rparr>"

definition example_env_put_fails :: env where
  "example_env_put_fails = example_env\<lparr>s3_put_fault := (\<lambda>b k. Some (Error ''SlowDown''))\<rparr>"

definition example_env_cache_denied :: env where
  "example_env_cache_denied =
     example_env\<lparr>s3_get_fault :=
       (\<lambda>b k. if b = ''cache'' then Some (Error ''AccessDenied'') else None)\<rparr>"

definition example_world :: "((string \<times> string) \<times> s3_object) list \<Rightarrow> world" where
  "example_world objs = \<lparr>objects = map_of objs, files = (\<lambda>p. None), trace = []\<rparr>"

section \<open>Characters, splitting and the patterns\<close>

lemma of_char_Canonicalize:
  "of_char (Canonicalize c) = (n::nat) \<Longrightarrow> 65 \<le> n \<Longrightarrow> n \<le> 90 \<Longrightarrow>
   (of_char c :: nat) = n \<or> (of_char c :: nat) = n + 32"
  by (auto simp: Canonicalize_def Let_def split: if_splits)

lemma of_char_toLowerCase:
  assumes "(of_char c :: nat) = n \<or> (of_char c :: nat) = n + 32" "65 \<le> n" "n \<le> 90"
  shows "toLowerCase_char c = char_of (n + 32)"
proof -
  have c: "c = char_of (of_char c :: nat)" by simp
  from assms(1) show ?thesis
  proof
    assume "(of_char c :: nat) = n"
    with assms(2,3) show ?thesis by (simp add: toLowerCase_char_def Let_def)
  next
    assume h: "(of_char c :: nat) = n + 32"
    with assms(2,3) have "toLowerCase_char c = c" by (simp add: toLowerCase_char_def Let_def)
    with c h show ?thesis by simp
  qed
qed

lemma canon_lower:
  assumes "Canonicalize c = u" "65 \<le> (of_char u :: nat)" "(of_char u :: nat) \<le> 90"
  shows "toLowerCase_char c = char_of (of_char u + 32 :: nat)"
  using of_char_toLowerCase [OF of_char_Canonicalize [OF _ assms(2,3)] assms(2,3), of c] assms(1)
  by simp

lemma canon_FIT: "map Canonicalize s = ''FIT'' \<Longrightarrow> toLowerCase s = ''fit''"
  by (auto simp: toLowerCase_def map_eq_Cons_conv char_of_eq_iff dest!: canon_lower)

lemma canon_FILL: "map Canonicalize s = ''FILL'' \<Longrightarrow> toLowerCase s = ''fill''"
  by (auto simp: toLowerCase_def map_eq_Cons_conv char_of_eq_iff dest!: canon_lower)

lemma lower_digit: "is_digit c \<Longrightarrow> toLowerCase_char c = c"
  by (auto simp: is_digit_def toLowerCase_char_def)

lemma lower_hex: "is_hex c \<Longrightarrow> toLowerCase_char c = c"
  by (auto simp: is_hex_def toLowerCase_char_def)

lemma split_nosep: "sep \<notin> set a \<Longrightarrow> split sep a = [a]"
  by (induction a) auto

lemma split_append: "sep \<notin> set a \<Longrightarrow> split sep (a @ sep # r) = a # split sep r"
  by (induction a) auto

lemma digit_not_x: "is_digit c \<Longrightarrow> c \<noteq> CHR ''x''"
  by (auto simp: is_digit_def)

lemma digit_not_dot: "is_digit c \<Longrightarrow> c \<noteq> CHR ''.''"
  by (auto simp: is_digit_def)

lemma hex_not_dot: "is_hex c \<Longrightarrow> c \<noteq> CHR ''.''"
  by (auto simp: is_hex_def)

lemma digits_no_x: "list_all is_digit s \<Longrightarrow> CHR ''x'' \<notin> set s"
  by (auto simp: list_all_iff dest: digit_not_x)

lemma digits_no_dot: "list_all is_digit s \<Longrightarrow> CHR ''.'' \<notin> set s"
  by (auto simp: list_all_iff dest: digit_not_dot)

lemma hex_no_dot: "list_all is_hex s \<Longrightarrow> CHR ''.'' \<notin> set s"
  by (auto simp: list_all_iff dest: hex_not_dot)

lemma re_canvas_D:
  assumes "re_canvas a"
  obtains ws hs where "a = ws @ ''x'' @ hs" "list_all is_digit ws" "list_all is_digit hs"
    "ws \<noteq> [] \<or> hs \<noteq> []"
proof -
  from assms obtain r where d: "dropWhile is_digit a = CHR ''x'' # r"
    and r: "list_all is_digit r" and ne: "takeWhile is_digit a \<noteq> [] \<or> r \<noteq> []"
    by (auto simp: re_canvas_def split: list.splits)
  have "a = takeWhile is_digit a @ dropWhile is_digit a" by simp
  with d have "a = takeWhile is_digit a @ ''x'' @ r" by simp
  moreover have "list_all is_digit (takeWhile is_digit a)"
    by (simp add: list_all_iff) (meson set_takeWhileD)
  ultimately show thesis using r ne that by blast
qed

lemma re_canvas_I:
  assumes "list_all is_digit ws" "list_all is_digit hs" "ws \<noteq> [] \<or> hs \<noteq> []"
  shows "re_canvas (ws @ ''x'' @ hs)"
proof -
  have nx: "\<not> is_digit (CHR ''x'')" by (simp add: is_digit_def)
  from assms(1) have a: "\<forall>c\<in>set ws. is_digit c" by (simp add: list_all_iff)
  have d: "dropWhile is_digit (ws @ CHR ''x'' # hs) = CHR ''x'' # hs"
    using a nx by (simp add: dropWhile_append2)
  have t: "takeWhile is_digit (ws @ CHR ''x'' # hs) = ws"
    using a nx by (simp add: takeWhile_append2)
  show ?thesis using assms d t by (simp add: re_canvas_def)
qed

lemma split_canvas:
  assumes "list_all is_digit ws" "list_all is_digit hs"
  shows "split (CHR ''x'') (ws @ ''x'' @ hs) = [ws, hs]"
  using split_append [OF digits_no_x [OF assms(1)], of hs] split_nosep [OF digits_no_x [OF assms(2)]]
  by simp

lemma ToNumber_or_zero: "list_all is_digit s \<Longrightarrow> ToNumber (or_zero s) = Some (dec s)"
  by (simp add: ToNumber_def or_zero_def dec_def)

lemma undefined_not_canvas: "\<not> re_canvas ''undefined''"
  by (simp add: re_canvas_def is_digit_def)

lemma undefined_not_cover: "\<not> re_cover ''undefined''"
  by (simp add: re_cover_def)

text \<open>What the constructor builds once the first two tests have passed.\<close>

lemma ResizeStyle_new_canvas:
  assumes "re_cover (ToString (idx (split separator t) 0))"
    and "ToString (idx (split separator t) 1) = ws @ ''x'' @ hs"
    and "list_all is_digit ws" "list_all is_digit hs" "ws \<noteq> [] \<or> hs \<noteq> []"
  shows "ResizeStyle_new t =
     (if maxDimension < dec ws \<or> maxDimension < dec hs
      then \<lparr>enable = False, cover = idx (split separator t) 0,
            canvas_w_string = Some ws, canvas_h_string = Some hs,
            canvas_w = or_zero ws, canvas_h = or_zero hs, format = None, background = None\<rparr>
      else \<lparr>enable = True, cover = idx (split separator t) 0,
            canvas_w_string = Some ws, canvas_h_string = Some hs,
            canvas_w = or_zero ws, canvas_h = or_zero hs,
            format = (if re_format (ToString (idx (split separator t) 2))
                      then idx (split separator t) 2 else Some ''jpg''),
            background = (if re_color (ToString (idx (split separator t) 3))
                          then idx (split separator t) 3 else Some ''none'')\<rparr>)"
proof -
  have c: "re_canvas (ToString (idx (split separator t) 1))"
    using re_canvas_I [OF assms(3,4,5)] assms(2) by simp
  have s: "split (CHR ''x'') (ToString (idx (split separator t) (Suc 0))) = [ws, hs]"
    using split_canvas [OF assms(3,4)] assms(2) by simp
  have i: "idx [ws, hs] 0 = Some ws" "idx [ws, hs] (Suc 0) = Some hs"
    by (simp_all add: idx_def)
  show ?thesis
    using assms(1) c
    by (simp add: ResizeStyle_new_def Let_def s i or_empty_def fresh_def
        ToNumber_or_zero [OF assms(3)] ToNumber_or_zero [OF assms(4)] js_less_def)
qed

lemma isValid_D:
  assumes "isValid (ResizeStyle_new t)"
  obtains ws hs where
    "re_cover (ToString (idx (split separator t) 0))"
    "ToString (idx (split separator t) 1) = ws @ ''x'' @ hs"
    "list_all is_digit ws" "list_all is_digit hs" "ws \<noteq> [] \<or> hs \<noteq> []"
    "dec ws \<le> maxDimension" "dec hs \<le> maxDimension"
proof -
  have a: "re_cover (ToString (idx (split separator t) 0))"
    using assms by (auto simp: isValid_def ResizeStyle_new_def Let_def fresh_def split: if_splits)
  have b: "re_canvas (ToString (idx (split separator t) 1))"
    using assms by (auto simp: isValid_def ResizeStyle_new_def Let_def fresh_def split: if_splits)
  from b obtain ws hs where w: "ToString (idx (split separator t) 1) = ws @ ''x'' @ hs"
    "list_all is_digit ws" "list_all is_digit hs" "ws \<noteq> [] \<or> hs \<noteq> []"
    by (rule re_canvas_D)
  have "\<not> (maxDimension < dec ws \<or> maxDimension < dec hs)"
    using assms ResizeStyle_new_canvas [OF a w] by (auto simp: isValid_def split: if_splits)
  with a w that show thesis by auto
qed

lemma toLowerCase_append: "toLowerCase (a @ b) = toLowerCase a @ toLowerCase b"
  by (simp add: toLowerCase_def)

lemma toLowerCase_Cons: "toLowerCase (c # s) = toLowerCase_char c # toLowerCase s"
  by (simp add: toLowerCase_def)

lemma lower_punct:
  "toLowerCase_char (CHR ''.'') = CHR ''.''" "toLowerCase_char (CHR ''x'') = CHR ''x''"
  by (simp_all add: toLowerCase_char_def)

lemma lower_digits: "list_all is_digit s \<Longrightarrow> toLowerCase s = s"
  by (simp add: toLowerCase_def list_all_iff map_idI lower_digit)

lemma lower_hexs: "list_all is_hex s \<Longrightarrow> toLowerCase s = s"
  by (simp add: toLowerCase_def list_all_iff map_idI lower_hex)

lemma lower_literals:
  "toLowerCase ''fit'' = ''fit''" "toLowerCase ''fill'' = ''fill''"
  "toLowerCase ''jpg'' = ''jpg''" "toLowerCase ''png'' = ''png''"
  "toLowerCase ''gif'' = ''gif''" "toLowerCase ''none'' = ''none''"
  "toLowerCase ''full'' = ''full''" "toLowerCase ''.'' = ''.''" "toLowerCase ''x'' = ''x''"
  by (simp_all add: toLowerCase_def toLowerCase_char_def)

lemma canon_JPG: "map Canonicalize s = ''JPG'' \<Longrightarrow> toLowerCase s = ''jpg''"
  by (auto simp: toLowerCase_def map_eq_Cons_conv char_of_eq_iff dest!: canon_lower)

lemma canon_PNG: "map Canonicalize s = ''PNG'' \<Longrightarrow> toLowerCase s = ''png''"
  by (auto simp: toLowerCase_def map_eq_Cons_conv char_of_eq_iff dest!: canon_lower)

lemma canon_GIF: "map Canonicalize s = ''GIF'' \<Longrightarrow> toLowerCase s = ''gif''"
  by (auto simp: toLowerCase_def map_eq_Cons_conv char_of_eq_iff dest!: canon_lower)

lemma lower_cover: "re_cover c \<Longrightarrow> toLowerCase c = ''fit'' \<or> toLowerCase c = ''fill''"
proof -
  assume "re_cover c"
  then consider "map Canonicalize c = ''FIT''" | "map Canonicalize c = ''FILL''"
    unfolding re_cover_def by blast
  then show ?thesis
  proof cases
    case 1 then show ?thesis by (simp add: canon_FIT)
  next
    case 2 then show ?thesis by (simp add: canon_FILL)
  qed
qed

lemma lower_format:
  "re_format f \<Longrightarrow>
   toLowerCase f = ''jpg'' \<or> toLowerCase f = ''png'' \<or> toLowerCase f = ''gif'' \<or> toLowerCase f = []"
proof -
  assume "re_format f"
  then consider "map Canonicalize f = ''JPG''" | "map Canonicalize f = ''PNG''"
    | "map Canonicalize f = ''GIF''" | "f = []"
    unfolding re_format_def by blast
  then show ?thesis
  proof cases
    case 1 then show ?thesis by (simp add: canon_JPG)
  next
    case 2 then show ?thesis by (simp add: canon_PNG)
  next
    case 3 then show ?thesis by (simp add: canon_GIF)
  next
    case 4 then show ?thesis by (simp add: toLowerCase_def)
  qed
qed

lemma re_literals:
  "re_cover ''fit''" "re_cover ''fill''" "re_format ''jpg''" "re_format ''png''"
  "re_format ''gif''" "re_format []" "\<not> re_color ''none''" "\<not> re_format ''undefined''"
  "\<not> re_color ''undefined''"
  by (simp_all add: re_cover_def re_format_def re_color_def Canonicalize_def char_of_eq_iff)

text \<open>The four segments of a key are found again by splitting it.\<close>

lemma split_key:
  assumes "CHR ''.'' \<notin> set a" "CHR ''.'' \<notin> set b" "CHR ''.'' \<notin> set c" "CHR ''.'' \<notin> set d"
  shows "split separator (a @ ''.'' @ b @ ''.'' @ c @ ''.'' @ d) = [a, b, c, d]"
  using split_append [OF assms(1), of "b @ ''.'' @ c @ ''.'' @ d"]
    split_append [OF assms(2), of "c @ ''.'' @ d"]
    split_append [OF assms(3), of d] split_nosep [OF assms(4)]
  by (simp add: separator_def)

lemma idx4:
  "idx [a, b, c, d] 0 = Some a" "idx [a, b, c, d] 1 = Some b"
  "idx [a, b, c, d] 2 = Some c" "idx [a, b, c, d] 3 = Some d"
  "idx [a, b, c, d] (Suc 0) = Some b"
  by (simp_all add: idx_def)

text \<open>The shape of the key of a valid style.\<close>

lemma valid_key:
  assumes "isValid (ResizeStyle_new t)"
  obtains c ws hs f b where
    "cover (ResizeStyle_new t) = idx (split separator t) 0"
    "ToString (idx (split separator t) 0) = c" "re_cover c"
    "ToString (idx (split separator t) 1) = ws @ ''x'' @ hs"
    "canvas_w_string (ResizeStyle_new t) = Some ws"
    "canvas_h_string (ResizeStyle_new t) = Some hs"
    "canvas_w (ResizeStyle_new t) = or_zero ws"
    "canvas_h (ResizeStyle_new t) = or_zero hs"
    "list_all is_digit ws" "list_all is_digit hs" "ws \<noteq> [] \<or> hs \<noteq> []"
    "dec ws \<le> maxDimension" "dec hs \<le> maxDimension"
    "format (ResizeStyle_new t) = Some f" "re_format f"
    "f = (if re_format (ToString (idx (split separator t) 2))
          then ToString (idx (split separator t) 2) else ''jpg'')"
    "background (ResizeStyle_new t) = Some b" "re_color b \<or> b = ''none''"
    "getIndexName (ResizeStyle_new t) =
       toLowerCase c @ ''.'' @ ws @ ''x'' @ hs @ ''.'' @ toLowerCase f @ ''.'' @ b"
proof -
  let ?arr = "split separator t"
  from assms obtain ws hs where h:
    "re_cover (ToString (idx ?arr 0))"
    "ToString (idx ?arr 1) = ws @ ''x'' @ hs"
    "list_all is_digit ws" "list_all is_digit hs" "ws \<noteq> [] \<or> hs \<noteq> []"
    and m: "dec ws \<le> maxDimension" "dec hs \<le> maxDimension"
    by (rule isValid_D)
  note n = ResizeStyle_new_canvas [OF h]
  define f where "f = (if re_format (ToString (idx ?arr 2)) then ToString (idx ?arr 2) else ''jpg'')"
  define b where "b = (if re_color (ToString (idx ?arr 3)) then ToString (idx ?arr 3) else ''none'')"
  have f2: "format (ResizeStyle_new t) = Some f"
    using m by (cases "idx ?arr 2") (auto simp: n f_def ToString_def re_literals)
  have b2: "background (ResizeStyle_new t) = Some b"
    using m by (cases "idx ?arr 3") (auto simp: n b_def ToString_def re_literals)
  have rf: "re_format f" by (simp add: f_def re_literals)
  have rb: "re_color b \<or> b = ''none''" by (simp add: b_def)
  have lb: "toLowerCase b = b"
    using rb by (auto simp: re_color_def lower_hexs lower_literals)
  have c0: "cover (ResizeStyle_new t) = idx ?arr 0" using m by (simp add: n)
  have f1: "canvas_w_string (ResizeStyle_new t) = Some ws"
    "canvas_h_string (ResizeStyle_new t) = Some hs"
    "canvas_w (ResizeStyle_new t) = or_zero ws"
    "canvas_h (ResizeStyle_new t) = or_zero hs"
    using m by (simp_all add: n)
  have k: "getIndexName (ResizeStyle_new t) =
       toLowerCase (ToString (idx ?arr 0)) @ ''.'' @ ws @ ''x'' @ hs @ ''.'' @ toLowerCase f @ ''.'' @ b"
    using assms
    by (simp add: getIndexName_def c0 f1 f2 b2 ToString_def [of "Some _"] toLowerCase_append
        toLowerCase_Cons lower_punct
        lower_digits [OF h(3)] lower_digits [OF h(4)] lb separator_def)
  show thesis
    using that [OF c0 refl h(1) h(2) f1 h(3,4,5) m f2 rf f_def b2 rb k] .
qed

lemma toLowerCase_Nil: "toLowerCase [] = []"
  by (simp add: toLowerCase_def)

lemma cover_no_dot: "re_cover c \<Longrightarrow> CHR ''.'' \<notin> set (toLowerCase c)"
  using lower_cover [of c] by auto

lemma format_no_dot: "re_format f \<Longrightarrow> CHR ''.'' \<notin> set (toLowerCase f)"
  using lower_format [of f] by auto

lemma color_no_dot: "re_color b \<or> b = ''none'' \<Longrightarrow> CHR ''.'' \<notin> set b"
  by (auto simp: re_color_def dest: hex_no_dot)

lemma canvas_no_dot:
  "list_all is_digit ws \<Longrightarrow> list_all is_digit hs \<Longrightarrow> CHR ''.'' \<notin> set (ws @ ''x'' @ hs)"
  by (auto dest: digits_no_dot)

lemma valid_key_split:
  assumes "isValid (ResizeStyle_new t)"
  obtains c ws hs f b where
    "ToString (idx (split separator t) 0) = c" "re_cover c"
    "ToString (idx (split separator t) 1) = ws @ ''x'' @ hs"
    "list_all is_digit ws" "list_all is_digit hs" "ws \<noteq> [] \<or> hs \<noteq> []"
    "dec ws \<le> maxDimension" "dec hs \<le> maxDimension"
    "format (ResizeStyle_new t) = Some f" "re_format f"
    "background (ResizeStyle_new t) = Some b" "re_color b \<or> b = ''none''"
    "getIndexName (ResizeStyle_new t) =
       toLowerCase c @ ''.'' @ ws @ ''x'' @ hs @ ''.'' @ toLowerCase f @ ''.'' @ b"
    "split separator (getIndexName (ResizeStyle_new t)) =
       [toLowerCase c, ws @ ''x'' @ hs, toLowerCase f, b]"
proof -
  from assms obtain c ws hs f b where h:
    "ToString (idx (split separator t) 0) = c" "re_cover c"
    "ToString (idx (split separator t) 1) = ws @ ''x'' @ hs"
    "list_all is_digit ws" "list_all is_digit hs" "ws \<noteq> [] \<or> hs \<noteq> []"
    "dec ws \<le> maxDimension" "dec hs \<le> maxDimension"
    "format (ResizeStyle_new t) = Some f" "re_format f"
    "background (ResizeStyle_new t) = Some b" "re_color b \<or> b = ''none''"
    "getIndexName (ResizeStyle_new t) =
       toLowerCase c @ ''.'' @ ws @ ''x'' @ hs @ ''.'' @ toLowerCase f @ ''.'' @ b"
    by (rule valid_key)
  have "split separator (toLowerCase c @ ''.'' @ (ws @ ''x'' @ hs) @ ''.'' @ toLowerCase f @ ''.'' @ b)
        = [toLowerCase c, ws @ ''x'' @ hs, toLowerCase f, b]"
    by (rule split_key [OF cover_no_dot [OF h(2)] canvas_no_dot [OF h(4,5)]
          format_no_dot [OF h(10)] color_no_dot [OF h(12)]])
  with h(13) have "split separator (getIndexName (ResizeStyle_new t)) =
       [toLowerCase c, ws @ ''x'' @ hs, toLowerCase f, b]" by simp
  with h that show thesis by blast
qed

text \<open>The target sizes of a valid style that is not keep-aspect are two digit strings.\<close>

lemma canvas_targets:
  assumes "isValid (ResizeStyle_new t)" "\<not> isKeepAspect (ResizeStyle_new t)"
  obtains ws hs where
    "getWidth (ResizeStyle_new t) = JStr ws" "getHeight (ResizeStyle_new t) = JStr hs"
    "ToNumber (JStr ws) = Some (dec ws)" "ToNumber (JStr hs) = Some (dec hs)"
proof -
  from assms(1) obtain c ws hs f b where h:
    "canvas_w (ResizeStyle_new t) = or_zero ws"
    "canvas_h (ResizeStyle_new t) = or_zero hs"
    "list_all is_digit ws" "list_all is_digit hs"
    by (rule valid_key)
  from assms(2) h(1,2) have ne: "ws \<noteq> []" "hs \<noteq> []"
    by (auto simp: isKeepAspect_def truthy_def or_zero_def split: if_splits)
  have "getWidth (ResizeStyle_new t) = JStr ws" "getHeight (ResizeStyle_new t) = JStr hs"
    using ne by (simp_all add: getWidth_def getHeight_def h(1,2) or_zero_def)
  moreover have "ToNumber (JStr ws) = Some (dec ws)" "ToNumber (JStr hs) = Some (dec hs)"
    using h(3,4) by (simp_all add: ToNumber_def)
  ultimately show thesis by (rule that)
qed

section \<open>Claims about the style token\<close>

text \<open>
  C9. For every token that parses to a valid style, parsing the key \<open>getIndexName\<close>
  produced for it as a new token again yields a valid style, and that style has the very
  same key: generating the key is idempotent under one round of parsing.
\<close>

theorem C9_key_round_trip:
  assumes "isValid (ResizeStyle_new t)"
  shows "isValid (ResizeStyle_new (getIndexName (ResizeStyle_new t)))
       \<and> getIndexName (ResizeStyle_new (getIndexName (ResizeStyle_new t)))
           = getIndexName (ResizeStyle_new t)"
proof -
  let ?k = "getIndexName (ResizeStyle_new t)"
  from assms obtain c ws hs f b where h:
    "ToString (idx (split separator t) 0) = c" "re_cover c"
    "ToString (idx (split separator t) 1) = ws @ ''x'' @ hs"
    "list_all is_digit ws" "list_all is_digit hs" "ws \<noteq> [] \<or> hs \<noteq> []"
    "dec ws \<le> maxDimension" "dec hs \<le> maxDimension"
    "format (ResizeStyle_new t) = Some f" "re_format f"
    "background (ResizeStyle_new t) = Some b" "re_color b \<or> b = ''none''"
    "?k = toLowerCase c @ ''.'' @ ws @ ''x'' @ hs @ ''.'' @ toLowerCase f @ ''.'' @ b"
    "split separator ?k = [toLowerCase c, ws @ ''x'' @ hs, toLowerCase f, b]"
    by (rule valid_key_split)
  have lc: "re_cover (toLowerCase c)" "toLowerCase (toLowerCase c) = toLowerCase c"
    using lower_cover [OF h(2)] by (auto simp: re_literals lower_literals)
  have lf: "re_format (toLowerCase f)" "toLowerCase (toLowerCase f) = toLowerCase f"
    using lower_format [OF h(10)] by (auto simp: re_literals lower_literals toLowerCase_Nil)
  have lb: "toLowerCase b = b"
    using h(12) by (auto simp: re_color_def lower_hexs lower_literals)
  have bg: "\<not> re_color b \<Longrightarrow> ''none'' = b"
    using h(12) by auto
  have a0: "re_cover (ToString (idx (split separator ?k) 0))"
    by (simp add: h(14) idx4 ToString_def lc)
  have a1: "ToString (idx (split separator ?k) 1) = ws @ ''x'' @ hs"
    by (simp add: h(14) idx4 ToString_def)
  have n: "ResizeStyle_new ?k =
     \<lparr>enable = True, cover = Some (toLowerCase c),
      canvas_w_string = Some ws, canvas_h_string = Some hs,
      canvas_w = or_zero ws, canvas_h = or_zero hs,
      format = Some (toLowerCase f), background = Some b\<rparr>"
    using h(7,8)
    by (simp add: ResizeStyle_new_canvas [OF a0 a1 h(4,5,6)] h(14) idx4 ToString_def lf bg)
  have v: "isValid (ResizeStyle_new ?k)" by (simp add: n isValid_def)
  have g: "getIndexName
     \<lparr>enable = True, cover = Some (toLowerCase c),
      canvas_w_string = Some ws, canvas_h_string = Some hs,
      canvas_w = or_zero ws, canvas_h = or_zero hs,
      format = Some (toLowerCase f), background = Some b\<rparr>
     = toLowerCase c @ ''.'' @ ws @ ''x'' @ hs @ ''.'' @ toLowerCase f @ ''.'' @ b"
    by (simp add: getIndexName_def isValid_def ToString_def toLowerCase_append
        toLowerCase_Cons lower_punct lc lf lb lower_digits [OF h(4)] lower_digits [OF h(5)]
        separator_def)
  have "getIndexName (ResizeStyle_new ?k) = ?k"
    by (simp only: n g) (simp only: h(13))
  with v show ?thesis by simp
qed

theorem C9_key_round_trip_witness:
  "isValid (ResizeStyle_new ''Fill.10x020.PNG.0af'')
   \<and> getIndexName (ResizeStyle_new ''Fill.10x020.PNG.0af'') = ''fill.10x020.png.0af''
   \<and> isValid (ResizeStyle_new ''fill.10x020.png.0af'')
   \<and> getIndexName (ResizeStyle_new ''fill.10x020.png.0af'') = ''fill.10x020.png.0af''"
proof -
  have v: "isValid (ResizeStyle_new ''Fill.10x020.PNG.0af'')" by code_simp
  have k: "getIndexName (ResizeStyle_new ''Fill.10x020.PNG.0af'') = ''fill.10x020.png.0af''"
    by code_simp
  from C9_key_round_trip [OF v] v k show ?thesis by simp
qed

text \<open>
  C7. A token whose cover segment is fit or fill in any letter case and whose second
  segment is digits, \<open>x\<close>, digits with the width or the height above 2048, parses to a
  style that is not valid. And in every valid style both target sizes, read as numbers,
  are at most 2048. A longer digit string is a larger number also as a JavaScript double,
  so the comparison with 2048 is the same on natural numbers.
\<close>

theorem C7_max_dimension:
  "(re_cover (ToString (idx (split separator t) 0))
      \<and> idx (split separator t) 1 = Some (ws @ ''x'' @ hs)
      \<and> list_all is_digit ws \<and> list_all is_digit hs
      \<and> (maxDimension < dec ws \<or> maxDimension < dec hs)
    \<longrightarrow> \<not> isValid (ResizeStyle_new t))
   \<and> (isValid (ResizeStyle_new t)
    \<longrightarrow> (\<exists>m n. ToNumber (getWidth (ResizeStyle_new t)) = Some m \<and> m \<le> 2048
             \<and> ToNumber (getHeight (ResizeStyle_new t)) = Some n \<and> n \<le> 2048))"
proof (intro conjI impI)
  assume a: "re_cover (ToString (idx (split separator t) 0))
      \<and> idx (split separator t) 1 = Some (ws @ ''x'' @ hs)
      \<and> list_all is_digit ws \<and> list_all is_digit hs
      \<and> (maxDimension < dec ws \<or> maxDimension < dec hs)"
  then have big: "maxDimension < dec ws \<or> maxDimension < dec hs" by blast
  have ne: "ws \<noteq> [] \<or> hs \<noteq> []"
  proof (rule ccontr)
    assume "\<not> (ws \<noteq> [] \<or> hs \<noteq> [])"
    then have "dec ws = 0" "dec hs = 0" by (simp_all add: dec_def)
    with big show False by simp
  qed
  from a have s: "ToString (idx (split separator t) 1) = ws @ ''x'' @ hs"
    by (simp add: ToString_def)
  from a have c: "re_cover (ToString (idx (split separator t) 0))"
    and d: "list_all is_digit ws" "list_all is_digit hs" by blast+
  show "\<not> isValid (ResizeStyle_new t)"
    using big by (simp add: ResizeStyle_new_canvas [OF c s d ne] isValid_def)
next
  assume "isValid (ResizeStyle_new t)"
  then obtain c ws hs f b where h:
    "canvas_w (ResizeStyle_new t) = or_zero ws"
    "canvas_h (ResizeStyle_new t) = or_zero hs"
    "list_all is_digit ws" "list_all is_digit hs"
    "dec ws \<le> maxDimension" "dec hs \<le> maxDimension"
    by (rule valid_key)
  show "\<exists>m n. ToNumber (getWidth (ResizeStyle_new t)) = Some m \<and> m \<le> 2048
             \<and> ToNumber (getHeight (ResizeStyle_new t)) = Some n \<and> n \<le> 2048"
    using h(5,6)
    by (simp add: getWidth_def getHeight_def h(1,2) ToNumber_or_zero [OF h(3)]
        ToNumber_or_zero [OF h(4)] maxDimension_def)
qed

theorem C7_max_dimension_witness:
  "re_cover (ToString (idx (split separator ''FILL.10x2049.png'') 0))
   \<and> idx (split separator ''FILL.10x2049.png'') 1 = Some (''10'' @ ''x'' @ ''2049'')
   \<and> list_all is_digit ''10'' \<and> list_all is_digit ''2049''
   \<and> maxDimension < dec ''2049''
   \<and> \<not> isValid (ResizeStyle_new ''FILL.10x2049.png'')
   \<and> isValid (ResizeStyle_new ''fit.2048x7'')
   \<and> ToNumber (getWidth (ResizeStyle_new ''fit.2048x7'')) = Some 2048
   \<and> ToNumber (getHeight (ResizeStyle_new ''fit.2048x7'')) = Some 7"
proof -
  have h: "re_cover (ToString (idx (split separator ''FILL.10x2049.png'') 0))
      \<and> idx (split separator ''FILL.10x2049.png'') 1 = Some (''10'' @ ''x'' @ ''2049'')
      \<and> list_all is_digit ''10'' \<and> list_all is_digit ''2049''
      \<and> (maxDimension < dec ''10'' \<or> maxDimension < dec ''2049'')"
    by code_simp
  have m: "maxDimension < dec ''2049''" by code_simp
  have v: "isValid (ResizeStyle_new ''fit.2048x7'')" by code_simp
  have n: "ToNumber (getWidth (ResizeStyle_new ''fit.2048x7'')) = Some 2048"
    "ToNumber (getHeight (ResizeStyle_new ''fit.2048x7'')) = Some 7" by code_simp+
  from C7_max_dimension [of "''FILL.10x2049.png''" "''10''" "''2049''"] h
  have "\<not> isValid (ResizeStyle_new ''FILL.10x2049.png'')" by blast
  with h m v n show ?thesis by blast
qed

text \<open>
  C1. For every token that parses as valid, a format segment that is empty or does not
  match jpg, png or gif in any letter case should give the format jpg. The code breaks
  this for a segment that is present and empty: the pattern of line 322 lets the empty
  text through, and line 323 stores it instead of the default of line 325. For the tokens
  \<open>fit.200x100.\<close> and \<open>fill.200x100..000\<close> the style is valid, the third segment is
  empty, \<open>getFormat\<close> returns the empty string, the format field of the key is empty and
  \<open>getContentType\<close> is \<open>image/\<close>. The same tokens without the third segment, or with
  an unknown one, get jpg.
\<close>

theorem C1_empty_format_kept:
  "isValid (ResizeStyle_new ''fit.200x100.'')
   \<and> idx (split separator ''fit.200x100.'') 2 = Some []
   \<and> getFormat (ResizeStyle_new ''fit.200x100.'') = Some []
   \<and> getIndexName (ResizeStyle_new ''fit.200x100.'') = ''fit.200x100..none''
   \<and> idx (split separator (getIndexName (ResizeStyle_new ''fit.200x100.''))) 2 = Some []
   \<and> getContentType (ResizeStyle_new ''fit.200x100.'') = ''image/''
   \<and> isValid (ResizeStyle_new ''fill.200x100..000'')
   \<and> idx (split separator ''fill.200x100..000'') 2 = Some []
   \<and> getFormat (ResizeStyle_new ''fill.200x100..000'') = Some []
   \<and> getIndexName (ResizeStyle_new ''fill.200x100..000'') = ''fill.200x100..000''
   \<and> getContentType (ResizeStyle_new ''fill.200x100..000'') = ''image/''
   \<and> getFormat (ResizeStyle_new ''fit.200x100'') = Some ''jpg''
   \<and> getFormat (ResizeStyle_new ''fit.200x100.bmp'') = Some ''jpg''
   \<and> getContentType (ResizeStyle_new ''fit.200x100'') = ''image/jpeg''"
  by code_simp

theorem C1_empty_format_kept_witness:
  "getFormat (ResizeStyle_new ''fit.200x100.'') \<noteq> Some ''jpg''
   \<and> idx (split separator (getIndexName (ResizeStyle_new ''fit.200x100.''))) 2 \<noteq> Some ''jpg''
   \<and> getFormat (ResizeStyle_new ''fill.200x100..000'') \<noteq> Some ''jpg''
   \<and> getContentType (ResizeStyle_new ''fill.200x100..000'') \<noteq> ''image/jpeg''"
proof -
  note t = C1_empty_format_kept
  from t have a: "getFormat (ResizeStyle_new ''fit.200x100.'') = Some []"
    by (elim conjE)
  from t have b: "idx (split separator (getIndexName (ResizeStyle_new ''fit.200x100.''))) 2
                    = Some []"
    by (elim conjE)
  from t have c: "getFormat (ResizeStyle_new ''fill.200x100..000'') = Some []"
    by (elim conjE)
  from t have d: "getContentType (ResizeStyle_new ''fill.200x100..000'') = ''image/''"
    by (elim conjE)
  show ?thesis unfolding a b c d by simp
qed

text \<open>
  The cases in which the default does apply: for every token that parses as valid, if the
  format segment is absent, or is not empty and does not match jpg, png or gif in any
  letter case, \<open>getFormat\<close> returns jpg and the third field of the key is jpg.
\<close>

lemma format_default:
  assumes "isValid (ResizeStyle_new t)"
    and "idx (split separator t) 2 = None
         \<or> (\<exists>f. idx (split separator t) 2 = Some f \<and> f \<noteq> []
                \<and> map Canonicalize f \<noteq> ''JPG'' \<and> map Canonicalize f \<noteq> ''PNG''
                \<and> map Canonicalize f \<noteq> ''GIF'')"
  shows "getFormat (ResizeStyle_new t) = Some ''jpg''
       \<and> idx (split separator (getIndexName (ResizeStyle_new t))) 2 = Some ''jpg''"
proof -
  from assms(2) have nf: "\<not> re_format (ToString (idx (split separator t) 2))"
    by (auto simp: ToString_def re_literals) (simp add: re_format_def)
  from assms(1) obtain c ws hs f b where h:
    "format (ResizeStyle_new t) = Some f"
    "f = (if re_format (ToString (idx (split separator t) 2))
          then ToString (idx (split separator t) 2) else ''jpg'')"
    by (rule valid_key)
  from h nf have f: "format (ResizeStyle_new t) = Some ''jpg''" by simp
  from assms(1) obtain c' ws' hs' f' b' where k:
    "format (ResizeStyle_new t) = Some f'"
    "split separator (getIndexName (ResizeStyle_new t)) =
       [toLowerCase c', ws' @ ''x'' @ hs', toLowerCase f', b']"
    by (rule valid_key_split)
  from f k(1) have "f' = ''jpg''" by simp
  with k(2) have "idx (split separator (getIndexName (ResizeStyle_new t))) 2 = Some ''jpg''"
    by (simp add: idx4 lower_literals)
  with f show ?thesis by (simp add: getFormat_def)
qed

lemma format_default_example:
  "isValid (ResizeStyle_new ''fit.200x100.bmp.fff'')
   \<and> idx (split separator ''fit.200x100.bmp.fff'') 2 = Some ''bmp''
   \<and> map Canonicalize ''bmp'' = ''BMP''
   \<and> getFormat (ResizeStyle_new ''fit.200x100.bmp.fff'') = Some ''jpg''
   \<and> idx (split separator (getIndexName (ResizeStyle_new ''fit.200x100.bmp.fff''))) 2 = Some ''jpg''
   \<and> isValid (ResizeStyle_new ''fit.200x100'')
   \<and> idx (split separator ''fit.200x100'') 2 = None
   \<and> getFormat (ResizeStyle_new ''fit.200x100'') = Some ''jpg''
   \<and> idx (split separator (getIndexName (ResizeStyle_new ''fit.200x100''))) 2 = Some ''jpg''"
proof -
  have v: "isValid (ResizeStyle_new ''fit.200x100.bmp.fff'')" by code_simp
  have s: "idx (split separator ''fit.200x100.bmp.fff'') 2 = Some ''bmp''" by code_simp
  have c: "map Canonicalize ''bmp'' = ''BMP''" by code_simp
  have g: "idx (split separator ''fit.200x100.bmp.fff'') 2 = None
         \<or> (\<exists>f. idx (split separator ''fit.200x100.bmp.fff'') 2 = Some f \<and> f \<noteq> []
                \<and> map Canonicalize f \<noteq> ''JPG'' \<and> map Canonicalize f \<noteq> ''PNG''
                \<and> map Canonicalize f \<noteq> ''GIF'')"
    using s c by simp
  have v2: "isValid (ResizeStyle_new ''fit.200x100'')" by code_simp
  have s2: "idx (split separator ''fit.200x100'') 2 = None" by code_simp
  from format_default [OF v g] format_default [OF v2 disjI1 [OF s2]] v s c v2 s2
  show ?thesis by blast
qed

text \<open>
  C4. For a valid style all five parts are defined and \<open>getIndexName\<close> is the lower-cased
  text cover, dot, width literal, \<open>x\<close>, height literal, dot, format, dot, background.
  The two literals are the pieces of the second segment of the token as they were
  written, so the second field of the key is that segment unchanged and a width of
  \<open>0\<close> and an empty width give different keys. For a style that is not valid the key is
  the text full.
\<close>

theorem C4_getIndexName:
  "(isValid (ResizeStyle_new t) \<longrightarrow>
      (\<exists>c ws hs f b.
         cover (ResizeStyle_new t) = Some c
         \<and> canvas_w_string (ResizeStyle_new t) = Some ws
         \<and> canvas_h_string (ResizeStyle_new t) = Some hs
         \<and> format (ResizeStyle_new t) = Some f
         \<and> background (ResizeStyle_new t) = Some b
         \<and> idx (split separator t) 1 = Some (ws @ ''x'' @ hs)
         \<and> getIndexName (ResizeStyle_new t)
             = toLowerCase (c @ ''.'' @ ws @ ''x'' @ hs @ ''.'' @ f @ ''.'' @ b)
         \<and> idx (split separator (getIndexName (ResizeStyle_new t))) 1
             = Some (ws @ ''x'' @ hs)))
   \<and> (\<not> isValid (ResizeStyle_new t) \<longrightarrow> getIndexName (ResizeStyle_new t) = ''full'')"
proof (intro conjI impI)
  assume v: "isValid (ResizeStyle_new t)"
  then obtain c ws hs f b where h:
    "cover (ResizeStyle_new t) = idx (split separator t) 0"
    "ToString (idx (split separator t) 0) = c" "re_cover c"
    "ToString (idx (split separator t) 1) = ws @ ''x'' @ hs"
    "canvas_w_string (ResizeStyle_new t) = Some ws"
    "canvas_h_string (ResizeStyle_new t) = Some hs"
    "canvas_w (ResizeStyle_new t) = or_zero ws"
    "canvas_h (ResizeStyle_new t) = or_zero hs"
    "list_all is_digit ws" "list_all is_digit hs" "ws \<noteq> [] \<or> hs \<noteq> []"
    "dec ws \<le> maxDimension" "dec hs \<le> maxDimension"
    "format (ResizeStyle_new t) = Some f" "re_format f"
    "f = (if re_format (ToString (idx (split separator t) 2))
          then ToString (idx (split separator t) 2) else ''jpg'')"
    "background (ResizeStyle_new t) = Some b" "re_color b \<or> b = ''none''"
    "getIndexName (ResizeStyle_new t) =
       toLowerCase c @ ''.'' @ ws @ ''x'' @ hs @ ''.'' @ toLowerCase f @ ''.'' @ b"
    by (rule valid_key)
  have c0: "idx (split separator t) 0 = Some c"
    using h(2,3) by (cases "idx (split separator t) 0") (auto simp: ToString_def re_literals undefined_not_cover)
  have a1: "idx (split separator t) 1 = Some (ws @ ''x'' @ hs)"
  proof (cases "idx (split separator t) 1")
    case None
    with h(4) have "re_canvas ''undefined''"
      using re_canvas_I [OF h(9,10,11)] by (simp add: ToString_def)
    with undefined_not_canvas show ?thesis by simp
  next
    case (Some a)
    with h(4) show ?thesis by (simp add: ToString_def)
  qed
  have lb: "toLowerCase b = b"
    using h(18) by (auto simp: re_color_def lower_hexs lower_literals)
  have k: "getIndexName (ResizeStyle_new t)
             = toLowerCase (c @ ''.'' @ ws @ ''x'' @ hs @ ''.'' @ f @ ''.'' @ b)"
    by (simp add: h(19) toLowerCase_append toLowerCase_Cons lower_punct lb
        lower_digits [OF h(9)] lower_digits [OF h(10)])
  from v obtain c' ws' hs' f' b' where s:
    "ToString (idx (split separator t) 1) = ws' @ ''x'' @ hs'"
    "split separator (getIndexName (ResizeStyle_new t)) =
       [toLowerCase c', ws' @ ''x'' @ hs', toLowerCase f', b']"
    by (rule valid_key_split)
  have i: "idx (split separator (getIndexName (ResizeStyle_new t))) 1 = Some (ws @ ''x'' @ hs)"
    using s h(4) by (simp add: idx4)
  show "\<exists>c ws hs f b.
         cover (ResizeStyle_new t) = Some c
         \<and> canvas_w_string (ResizeStyle_new t) = Some ws
         \<and> canvas_h_string (ResizeStyle_new t) = Some hs
         \<and> format (ResizeStyle_new t) = Some f
         \<and> background (ResizeStyle_new t) = Some b
         \<and> idx (split separator t) 1 = Some (ws @ ''x'' @ hs)
         \<and> getIndexName (ResizeStyle_new t)
             = toLowerCase (c @ ''.'' @ ws @ ''x'' @ hs @ ''.'' @ f @ ''.'' @ b)
         \<and> idx (split separator (getIndexName (ResizeStyle_new t))) 1
             = Some (ws @ ''x'' @ hs)"
    using h(1,5,6,14,17) c0 a1 k i by auto
next
  assume "\<not> isValid (ResizeStyle_new t)"
  then show "getIndexName (ResizeStyle_new t) = ''full''"
    by (simp add: getIndexName_def lower_literals)
qed

theorem C4_getIndexName_witness:
  "isValid (ResizeStyle_new ''Fit.0x5.PNG.fff'')
   \<and> getIndexName (ResizeStyle_new ''Fit.0x5.PNG.fff'') = ''fit.0x5.png.fff''
   \<and> isValid (ResizeStyle_new ''Fit.x5.PNG.fff'')
   \<and> getIndexName (ResizeStyle_new ''Fit.x5.PNG.fff'') = ''fit.x5.png.fff''
   \<and> \<not> isValid (ResizeStyle_new ''fit.5'')
   \<and> getIndexName (ResizeStyle_new ''fit.5'') = ''full''
   \<and> \<not> isValid (ResizeStyle_new [])
   \<and> getIndexName (ResizeStyle_new []) = ''full''"
proof -
  have v: "isValid (ResizeStyle_new ''Fit.0x5.PNG.fff'')"
    "isValid (ResizeStyle_new ''Fit.x5.PNG.fff'')" by code_simp+
  have f: "cover (ResizeStyle_new ''Fit.0x5.PNG.fff'') = Some ''Fit''"
    "canvas_w_string (ResizeStyle_new ''Fit.0x5.PNG.fff'') = Some ''0''"
    "canvas_h_string (ResizeStyle_new ''Fit.0x5.PNG.fff'') = Some ''5''"
    "format (ResizeStyle_new ''Fit.0x5.PNG.fff'') = Some ''PNG''"
    "background (ResizeStyle_new ''Fit.0x5.PNG.fff'') = Some ''fff''"
    by code_simp+
  have g: "cover (ResizeStyle_new ''Fit.x5.PNG.fff'') = Some ''Fit''"
    "canvas_w_string (ResizeStyle_new ''Fit.x5.PNG.fff'') = Some []"
    "canvas_h_string (ResizeStyle_new ''Fit.x5.PNG.fff'') = Some ''5''"
    "format (ResizeStyle_new ''Fit.x5.PNG.fff'') = Some ''PNG''"
    "background (ResizeStyle_new ''Fit.x5.PNG.fff'') = Some ''fff''"
    by code_simp+
  have l: "toLowerCase ''Fit.0x5.PNG.fff'' = ''fit.0x5.png.fff''"
    "toLowerCase ''Fit.x5.PNG.fff'' = ''fit.x5.png.fff''" by code_simp+
  have n: "\<not> isValid (ResizeStyle_new ''fit.5'')" "\<not> isValid (ResizeStyle_new [])"
    by code_simp+
  have k1: "getIndexName (ResizeStyle_new ''Fit.0x5.PNG.fff'') = ''fit.0x5.png.fff''"
    using C4_getIndexName [of "''Fit.0x5.PNG.fff''"] v(1) f l(1) by auto
  have k2: "getIndexName (ResizeStyle_new ''Fit.x5.PNG.fff'') = ''fit.x5.png.fff''"
    using C4_getIndexName [of "''Fit.x5.PNG.fff''"] v(2) g l(2) by auto
  have k3: "getIndexName (ResizeStyle_new ''fit.5'') = ''full''"
    using C4_getIndexName [of "''fit.5''"] n(1) by blast
  have k4: "getIndexName (ResizeStyle_new []) = ''full''"
    using C4_getIndexName [of "[]"] n(2) by blast
  from v n k1 k2 k3 k4 show ?thesis by blast
qed

text \<open>
  What \<open>getResizeData\<close> does when the cover was written \<open>fit\<close> in lower case: the
  longer side of the source is the constrained one.
\<close>

lemma getResizeData_fit:
  assumes "cover s = Some ''fit''"
    and "ToNumber (getWidth s) = Some tw"
    and "ToNumber (getHeight s) = Some th"
  shows "map_prod ToNumber ToNumber (getResizeData s w h) =
         (if w < h then (Some 0, Some (min h th)) else (Some (min w tw), Some 0))"
  using assms
  by (auto simp: getResizeData_def js_less_def ToNumber_def [of "JNum _"] min_def)

text \<open>
  C2 does not hold for a cover written in upper case. The parser accepts \<open>FIT\<close>
  (line 300 ignores case) and the key is lower-cased (line 360), but line 396 and line 413
  compare the stored text with \<open>'fit'\<close> exactly. For the token \<open>FIT.200x100\<close> and a
  source of 100 by 200 the claim gives (0, 100); the code takes the fill branch and
  returns (100, 0). The same request with \<open>fit\<close> returns (0, 100), and both tokens share
  one cache key.
\<close>

theorem C2_uppercase_fit_resized_as_fill:
  "isValid (ResizeStyle_new ''FIT.200x100'')
   \<and> \<not> isKeepAspect (ResizeStyle_new ''FIT.200x100'')
   \<and> ToNumber (getWidth (ResizeStyle_new ''FIT.200x100'')) = Some 200
   \<and> ToNumber (getHeight (ResizeStyle_new ''FIT.200x100'')) = Some 100
   \<and> getResizeData (ResizeStyle_new ''FIT.200x100'') 100 200 = (JNum 100, JNum 0)
   \<and> getResizeData (ResizeStyle_new ''fit.200x100'') 100 200 = (JNum 0, JStr ''100'')
   \<and> getIndexName (ResizeStyle_new ''FIT.200x100'') = getIndexName (ResizeStyle_new ''fit.200x100'')"
  by code_simp

theorem C2_uppercase_fit_resized_as_fill_witness:
  "map_prod ToNumber ToNumber (getResizeData (ResizeStyle_new ''FIT.200x100'') 100 200)
     = (Some 100, Some 0)
   \<and> (0, min 200 100) = (0 :: nat, 100 :: nat)"
  using C2_uppercase_fit_resized_as_fill by (simp add: ToNumber_def)

text \<open>
  C8 fails when a target size is zero: the pattern of line 306 accepts \<open>0\<close>, and the
  string \<open>"0"\<close> is truthy, so \<open>fit.0x5\<close> is valid and not keep-aspect. For a source of
  10 by 5 both components of the result are zero.
\<close>

theorem C8_both_zero_counterexample:
  "isValid (ResizeStyle_new ''fit.0x5'')
   \<and> \<not> isKeepAspect (ResizeStyle_new ''fit.0x5'')
   \<and> getResizeData (ResizeStyle_new ''fit.0x5'') 10 5 = (JStr ''0'', JNum 0)
   \<and> ToNumber (JStr ''0'') = Some 0 \<and> ToNumber (JNum 0) = Some 0"
  by code_simp

text \<open>
  C8, amended. For every valid style that is not keep-aspect and every source size,
  \<open>getResizeData\<close> returns a pair in which one component is the number 0 and the other
  has, as a number, the minimum of the source size and the target size on its axis.
  Exactly one component is zero when the source sizes and the target sizes are all
  positive.
\<close>

theorem C8_resize_data:
  assumes "isValid (ResizeStyle_new t)" "\<not> isKeepAspect (ResizeStyle_new t)"
  shows "\<exists>tw th a b.
           ToNumber (getWidth (ResizeStyle_new t)) = Some tw
         \<and> ToNumber (getHeight (ResizeStyle_new t)) = Some th
         \<and> getResizeData (ResizeStyle_new t) w h = (a, b)
         \<and> ((b = JNum 0 \<and> ToNumber a = Some (min w tw))
              \<or> (a = JNum 0 \<and> ToNumber b = Some (min h th)))
         \<and> (0 < w \<and> 0 < h \<and> 0 < tw \<and> 0 < th
              \<longrightarrow> (ToNumber a = Some 0) \<noteq> (ToNumber b = Some 0))"
proof -
  from assms obtain ws hs where g:
    "getWidth (ResizeStyle_new t) = JStr ws" "getHeight (ResizeStyle_new t) = JStr hs"
    "ToNumber (JStr ws) = Some (dec ws)" "ToNumber (JStr hs) = Some (dec hs)"
    by (rule canvas_targets)
  obtain a b where r: "getResizeData (ResizeStyle_new t) w h = (a, b)"
    by (cases "getResizeData (ResizeStyle_new t) w h")
  have n0: "ToNumber (JNum 0) = Some 0" by (simp add: ToNumber_def)
  have shape: "(b = JNum 0 \<and> ToNumber a = Some (min w (dec ws)))
              \<or> (a = JNum 0 \<and> ToNumber b = Some (min h (dec hs)))"
    using r by (auto simp: getResizeData_def g js_less_def ToNumber_def [of "JNum _"] min_def
        split: if_splits)
  have one: "0 < w \<and> 0 < h \<and> 0 < dec ws \<and> 0 < dec hs
              \<longrightarrow> (ToNumber a = Some 0) \<noteq> (ToNumber b = Some 0)"
    using shape n0 by (auto simp: min_def split: if_splits)
  show ?thesis using g r shape one by auto
qed

theorem C8_resize_data_witness:
  "isValid (ResizeStyle_new ''fill.200x100..000'')
   \<and> \<not> isKeepAspect (ResizeStyle_new ''fill.200x100..000'')
   \<and> ToNumber (getWidth (ResizeStyle_new ''fill.200x100..000'')) = Some 200
   \<and> ToNumber (getHeight (ResizeStyle_new ''fill.200x100..000'')) = Some 100
   \<and> getResizeData (ResizeStyle_new ''fill.200x100..000'') 800 400 = (JNum 0, JStr ''100'')
   \<and> ToNumber (JStr ''100'') = Some (min 400 100)
   \<and> ToNumber (JNum 0) = Some 0"
proof -
  have v: "isValid (ResizeStyle_new ''fill.200x100..000'')"
    and k: "\<not> isKeepAspect (ResizeStyle_new ''fill.200x100..000'')" by code_simp+
  have t: "ToNumber (getWidth (ResizeStyle_new ''fill.200x100..000'')) = Some 200"
    "ToNumber (getHeight (ResizeStyle_new ''fill.200x100..000'')) = Some 100" by code_simp+
  have r: "getResizeData (ResizeStyle_new ''fill.200x100..000'') 800 400 = (JNum 0, JStr ''100'')"
    by code_simp
  from C8_resize_data [OF v k, of 800 400] t r
  have "ToNumber (JStr ''100'') = Some (min 400 100) \<and> ToNumber (JNum 0) = Some 0"
    by (auto simp: ToNumber_def [of "JNum _"])
  with v k t r show ?thesis by blast
qed

section \<open>Lemmas about the handler\<close>

lemma s3_getObject_world: "snd (s3_getObject ev b k w) = record_event (S3GetObject b k) w"
  by (simp add: s3_getObject_def Let_def split: option.splits)

lemma s3_getObject_eq:
  "s3_getObject ev b k w = (fst (s3_getObject ev b k w), record_event (S3GetObject b k) w)"
  using s3_getObject_world [of ev b k w] by (simp add: prod_eq_iff)

lemma s3_getObject_record_event:
  "fst (s3_getObject ev b k (record_event x w)) = fst (s3_getObject ev b k w)"
  by (simp add: s3_getObject_def Let_def record_event_def split: option.splits)

lemma download_miss:
  "fst (s3_getObject ev b k w) = Inl e \<Longrightarrow>
   download ev b k w = (Inl e, record_event (S3GetObject b k) w)"
  using s3_getObject_eq [of ev b k w] by (simp add: download_def)

lemma download_hit:
  "fst (s3_getObject ev b k w) = Inr obj \<Longrightarrow>
   download ev b k w = (Inr (Body obj, ContentType obj, obj), record_event (S3GetObject b k) w)"
  using s3_getObject_eq [of ev b k w] by (simp add: download_def)

lemma record_event_fields:
  "trace (record_event x w) = trace w @ [x]"
  "objects (record_event x w) = objects w"
  "files (record_event x w) = files w"
  by (simp_all add: record_event_def)

lemma prefix_s3_putObject: "prefix (trace w) (trace (snd (s3_putObject ev b k d c w)))"
  by (simp add: s3_putObject_def Let_def record_event_def split: option.splits)

lemma prefix_fs_writeFile: "prefix (trace w) (trace (snd (fs_writeFile ev pa d w)))"
  by (simp add: fs_writeFile_def Let_def record_event_def split: option.splits)

lemma prefix_fs_readFile: "prefix (trace w) (trace (snd (fs_readFile ev pa w)))"
  by (simp add: fs_readFile_def Let_def record_event_def split: option.splits)

lemma prefix_im_convert_call: "prefix (trace w) (trace (snd (im_convert_call ev a w)))"
  by (simp add: im_convert_call_def Let_def record_event_def split: sum.splits)

lemma prefix_upload: "prefix (trace w) (trace (snd (upload ev cp d c w)))"
  by (simp add: upload_def prefix_s3_putObject)

lemma prefix_resize: "prefix (trace w) (trace (snd (resize ev rs d w)))"
  by (simp add: resize_def Let_def record_event_def split: sum.splits)

lemma prefix_step:
  assumes "f w = (r, w')" "prefix (trace w) (trace (snd (f w)))"
  shows "prefix (trace w) (trace w')"
  using assms by simp

lemma prefix_convert: "prefix (trace w) (trace (snd (convert ev rs bn d w)))"
  unfolding convert_def Let_def
  by (auto simp: record_event_fields split: sum.splits prod.splits option.splits
      dest!: prefix_step [OF _ prefix_fs_writeFile] prefix_step [OF _ prefix_im_convert_call]
        prefix_step [OF _ prefix_fs_readFile])
    (meson prefix_order.trans append_prefixD)+

lemma prefix_task_validate:
  "prefix (trace w) (trace (snd (task_validate ev rs cp d c w)))"
  using prefix_upload [of w ev cp d c]
  by (auto simp: task_validate_def split: prod.splits option.splits)

lemma prefix_task_resize:
  "prefix (trace w) (trace (snd (task_resize ev rs bn d c w)))"
  using prefix_resize [of w ev rs d] prefix_convert [of w ev rs bn d]
  by (auto simp: task_resize_def split: prod.splits sum.splits)

lemma prefix_task_store:
  "prefix (trace w) (trace (snd (task_store ev cp d c w)))"
  using prefix_upload [of w ev cp d c]
  by (auto simp: task_store_def split: prod.splits option.splits)

lemma final_trace: "prefix (trace w) (trace (snd (final r w)))"
  by (cases r) (auto simp: Let_def console_log_def record_event_fields split: exception.splits)

text \<open>After a successful or failed origin get, the trace continues from that get.\<close>

lemma from_original_trace:
  "prefix (trace w @ [S3GetObject (BUCKET_ORIGINAL ev) (KEY_ORIGINAL ev @ op)])
     (trace (snd (from_original ev rs bn cp op w)))"
proof -
  let ?w1 = "record_event (S3GetObject (BUCKET_ORIGINAL ev) (KEY_ORIGINAL ev @ op)) w"
  have d: "snd (download ev (BUCKET_ORIGINAL ev) (KEY_ORIGINAL ev @ op) w) = ?w1"
    using s3_getObject_eq [of ev "BUCKET_ORIGINAL ev" "KEY_ORIGINAL ev @ op" w]
    by (auto simp: download_def split: prod.splits sum.splits)
  have t: "snd (task_original ev op w) = ?w1"
    using d by (auto simp: task_original_def split: prod.splits sum.splits)
  have w1: "trace ?w1 = trace w @ [S3GetObject (BUCKET_ORIGINAL ev) (KEY_ORIGINAL ev @ op)]"
    by (simp add: record_event_fields)
  show ?thesis
  proof (cases "task_original ev op w")
    case (Pair r w2)
    with t have w2: "w2 = ?w1" by simp
    show ?thesis
    proof (cases r)
      case (Inl x)
      with Pair w2 w1 show ?thesis by (simp add: from_original_def)
    next
      case (Inr bc)
      obtain d c where bc: "bc = (d, c)" by (cases bc)
      show ?thesis
      proof (cases "task_validate ev rs cp d c w2")
        case v: (Pair r3 w3)
        have p3: "prefix (trace w2) (trace w3)"
          using prefix_task_validate [of w2 ev rs cp d c] v by simp
        show ?thesis
        proof (cases r3)
          case (Inl x)
          with Pair Inr bc v p3 w2 w1 show ?thesis by (simp add: from_original_def)
        next
          case i3: (Inr bc3)
          obtain d3 c3 where bc3: "bc3 = (d3, c3)" by (cases bc3)
          show ?thesis
          proof (cases "task_resize ev rs bn d3 c3 w3")
            case z: (Pair r4 w4)
            have p4: "prefix (trace w3) (trace w4)"
              using prefix_task_resize [of w3 ev rs bn d3 c3] z by simp
            from p3 p4 have p34: "prefix (trace w2) (trace w4)"
              by (rule prefix_order.trans)
            show ?thesis
            proof (cases r4)
              case (Inl x)
              with Pair Inr bc v i3 bc3 z p34 w2 w1 show ?thesis
                by (simp add: from_original_def)
            next
              case i4: (Inr bc4)
              obtain d4 c4 where bc4: "bc4 = (d4, c4)" by (cases bc4)
              have "prefix (trace w4) (trace (snd (task_store ev cp d4 c4 w4)))"
                by (rule prefix_task_store)
              with p34 have "prefix (trace w2) (trace (snd (task_store ev cp d4 c4 w4)))"
                by (rule prefix_order.trans)
              with Pair Inr bc v i3 bc3 z i4 bc4 w2 w1 show ?thesis
                by (simp add: from_original_def)
            qed
          qed
        qed
      qed
    qed
  qed
qed

lemma download_hit_after:
  "fst (s3_getObject ev b k w) = Inr obj \<Longrightarrow>
   download ev b k (record_event x w) =
     (Inr (Body obj, ContentType obj, obj), record_event (S3GetObject b k) (record_event x w))"
  by (rule download_hit) (simp add: s3_getObject_record_event)

lemma download_miss_after:
  "fst (s3_getObject ev b k w) = Inl e \<Longrightarrow>
   download ev b k (record_event x w) =
     (Inl e, record_event (S3GetObject b k) (record_event x w))"
  by (rule download_miss) (simp add: s3_getObject_record_event)

lemma final_err:
  "waterfall_err (fst (final r w)) = (case r of Inl x \<Rightarrow> Some x | Inr m \<Rightarrow> None)"
  by (cases r) (auto simp: Let_def split: exception.splits)

text \<open>Only a failed origin get ends the tasks after the cache lookup with NotFound.\<close>

lemma from_original_NotFound:
  assumes "fst (from_original ev rs bn cp op w) = Inl NotFoundException"
  shows "\<exists>e. fst (s3_getObject ev (BUCKET_ORIGINAL ev) (KEY_ORIGINAL ev @ op) w) = Inl e"
proof (cases "fst (s3_getObject ev (BUCKET_ORIGINAL ev) (KEY_ORIGINAL ev @ op) w)")
  case (Inl e)
  then show ?thesis by blast
next
  case (Inr obj)
  from download_hit [OF Inr] assms show ?thesis
    by (auto simp: from_original_def task_original_def task_validate_def task_resize_def
        task_store_def CouldNotResizeException_new_def
        split: prod.splits sum.splits option.splits if_splits)
qed

lemma invalid_key: "\<not> isValid s \<Longrightarrow> getIndexName s = ''full''"
  by (simp add: getIndexName_def toLowerCase_def toLowerCase_char_def)

lemma s3_putObject_fail:
  "s3_put_fault ev b k = Some e \<Longrightarrow>
   s3_putObject ev b k d c w = (Some e, record_event (S3PutObject b k d c) w)"
  by (simp add: s3_putObject_def Let_def)

lemma s3_putObject_ok:
  "s3_put_fault ev b k = None \<Longrightarrow>
   s3_putObject ev b k d c w =
     (None, (record_event (S3PutObject b k d c) w)
              \<lparr>objects := (objects w)((b, k) \<mapsto> \<lparr>Body = d, ContentType = c, Metadata = []\<rparr>)\<rparr>)"
  by (simp add: s3_putObject_def Let_def record_event_fields)

lemma handler_eq:
  "handler ev p w =
     (case waterfall ev (ResizeStyle_new (params_of p)) (filename_of p)
             (filename_of p @ ''_'' @ getIndexName (ResizeStyle_new (params_of p)))
             (filename_of p) w
      of (r, w') \<Rightarrow> final r w')"
  by (simp add: handler_def Let_def filename_of_def params_of_def)

section \<open>Claims about the request pipeline\<close>

text \<open>
  C3. The cache object is looked up under the configured key prefix followed by the file
  name, an underscore and the key of the style. When that get succeeds, the handler calls
  back with status 200, the bytes of the cached object in base64 as body and its content
  type as Content-Type header. The trace shows the cache get as the only call to a
  collaborator, followed by two console lines: no origin get, no image operation and no
  put happen, and buckets and files are as before.
\<close>

theorem C3_cache_hit:
  assumes "fst (s3_getObject ev (BUCKET_CACHE ev)
                  (KEY_CACHE ev @ filename_of p @ ''_'' @ getIndexName (ResizeStyle_new (params_of p)))
                  w) = Inr obj"
  shows "callback_payload (fst (handler ev p w)) =
           Some \<lparr>statusCode = 200, headers = [(''Content-Type'', ContentType obj)],
                 isBase64Encoded = True, body = base64 (Body obj)\<rparr>
       \<and> waterfall_err (fst (handler ev p w)) =
           Some (ExistCacheException_new (Body obj) (ContentType obj))
       \<and> trace (snd (handler ev p w)) =
           trace w @ [S3GetObject (BUCKET_CACHE ev)
                        (KEY_CACHE ev @ filename_of p @ ''_''
                           @ getIndexName (ResizeStyle_new (params_of p))),
                      ConsoleLog (JStr ''catch exception''), ConsoleLog (JNum 200)]
       \<and> objects (snd (handler ev p w)) = objects w
       \<and> files (snd (handler ev p w)) = files w"
  using download_hit [OF assms]
  by (simp add: handler_def Let_def waterfall_def task_cache_def filename_of_def params_of_def
      ExistCacheException_new_def envelope_def Payload_new_def console_log_def
      record_event_fields)

theorem C3_cache_hit_witness:
  "fst (s3_getObject example_env ''cache'' ''c/cat_fit.10x.png.none''
         (example_world [((''cache'', ''c/cat_fit.10x.png.none''),
                          \<lparr>Body = ''hi'', ContentType = ''image/png'', Metadata = []\<rparr>)]))
     = Inr \<lparr>Body = ''hi'', ContentType = ''image/png'', Metadata = []\<rparr>
   \<and> callback_payload (fst (handler example_env ''cat/FIT.10x.png''
         (example_world [((''cache'', ''c/cat_fit.10x.png.none''),
                          \<lparr>Body = ''hi'', ContentType = ''image/png'', Metadata = []\<rparr>)])))
     = Some \<lparr>statusCode = 200, headers = [(''Content-Type'', ''image/png'')],
             isBase64Encoded = True, body = ''aGk=''\<rparr>
   \<and> trace (snd (handler example_env ''cat/FIT.10x.png''
         (example_world [((''cache'', ''c/cat_fit.10x.png.none''),
                          \<lparr>Body = ''hi'', ContentType = ''image/png'', Metadata = []\<rparr>)])))
     = [S3GetObject ''cache'' ''c/cat_fit.10x.png.none'',
        ConsoleLog (JStr ''catch exception''), ConsoleLog (JNum 200)]"
proof -
  let ?w = "example_world [((''cache'', ''c/cat_fit.10x.png.none''),
                          \<lparr>Body = ''hi'', ContentType = ''image/png'', Metadata = []\<rparr>)]"
  have k: "KEY_CACHE example_env @ filename_of ''cat/FIT.10x.png'' @ ''_''
            @ getIndexName (ResizeStyle_new (params_of ''cat/FIT.10x.png''))
           = ''c/cat_fit.10x.png.none''" by code_simp
  have b: "BUCKET_CACHE example_env = ''cache''" by code_simp
  have g: "fst (s3_getObject example_env ''cache'' ''c/cat_fit.10x.png.none'' ?w)
     = Inr \<lparr>Body = ''hi'', ContentType = ''image/png'', Metadata = []\<rparr>"
    by (simp add: s3_getObject_def example_env_def example_world_def Let_def)
  have e: "base64 ''hi'' = ''aGk=''" by code_simp
  have t: "trace ?w = []" by (simp add: example_world_def)
  from C3_cache_hit [of example_env "''cat/FIT.10x.png''" ?w
      "\<lparr>Body = ''hi'', ContentType = ''image/png'', Metadata = []\<rparr>"] g
  show ?thesis unfolding k b by (simp add: e t del: base64.simps)
qed

text \<open>
  C6. The origin get happens only after a cache miss. When it succeeds and the metadata of
  the object carries a deleted flag (any non-empty value, such as \<open>true\<close>), the
  waterfall ends with \<open>DeletedException\<close>, the callback is never called, the buckets are
  unchanged, and the trace holds the two gets and one console line: no put.
\<close>

theorem C6_deleted:
  assumes "fst (s3_getObject ev (BUCKET_CACHE ev)
                  (KEY_CACHE ev @ filename_of p @ ''_'' @ getIndexName (ResizeStyle_new (params_of p)))
                  w) = Inl e"
    and "fst (s3_getObject ev (BUCKET_ORIGINAL ev) (KEY_ORIGINAL ev @ filename_of p) w) = Inr obj"
    and "metadata_deleted obj"
  shows "waterfall_err (fst (handler ev p w)) = Some DeletedException
       \<and> callback_payload (fst (handler ev p w)) = None
       \<and> objects (snd (handler ev p w)) = objects w
       \<and> trace (snd (handler ev p w)) =
           trace w @ [S3GetObject (BUCKET_CACHE ev)
                        (KEY_CACHE ev @ filename_of p @ ''_''
                           @ getIndexName (ResizeStyle_new (params_of p))),
                      S3GetObject (BUCKET_ORIGINAL ev) (KEY_ORIGINAL ev @ filename_of p),
                      ConsoleLog (JStr ''catch exception'')]"
  using download_miss [OF assms(1)] download_hit_after [OF assms(2)] assms(3)
  by (simp add: handler_def Let_def waterfall_def from_original_def task_cache_def
      task_original_def filename_of_def params_of_def console_log_def record_event_fields)

theorem C6_deleted_witness:
  "fst (s3_getObject example_env ''cache'' ''c/cat_full''
         (example_world [((''origin'', ''o/cat''),
            \<lparr>Body = ''hi'', ContentType = ''image/png'', Metadata = [(''deleted'', ''true'')]\<rparr>)]))
     = Inl (Error ''NoSuchKey'')
   \<and> fst (s3_getObject example_env ''origin'' ''o/cat''
         (example_world [((''origin'', ''o/cat''),
            \<lparr>Body = ''hi'', ContentType = ''image/png'', Metadata = [(''deleted'', ''true'')]\<rparr>)]))
     = Inr \<lparr>Body = ''hi'', ContentType = ''image/png'', Metadata = [(''deleted'', ''true'')]\<rparr>
   \<and> metadata_deleted
        \<lparr>Body = ''hi'', ContentType = ''image/png'', Metadata = [(''deleted'', ''true'')]\<rparr>
   \<and> waterfall_err (fst (handler example_env ''cat''
         (example_world [((''origin'', ''o/cat''),
            \<lparr>Body = ''hi'', ContentType = ''image/png'', Metadata = [(''deleted'', ''true'')]\<rparr>)])))
     = Some DeletedException
   \<and> callback_payload (fst (handler example_env ''cat''
         (example_world [((''origin'', ''o/cat''),
            \<lparr>Body = ''hi'', ContentType = ''image/png'', Metadata = [(''deleted'', ''true'')]\<rparr>)])))
     = None
   \<and> trace (snd (handler example_env ''cat''
         (example_world [((''origin'', ''o/cat''),
            \<lparr>Body = ''hi'', ContentType = ''image/png'', Metadata = [(''deleted'', ''true'')]\<rparr>)])))
     = [S3GetObject ''cache'' ''c/cat_full'', S3GetObject ''origin'' ''o/cat'',
        ConsoleLog (JStr ''catch exception'')]"
proof -
  let ?o = "\<lparr>Body = ''hi'', ContentType = ''image/png'', Metadata = [(''deleted'', ''true'')]\<rparr>"
  let ?w = "example_world [((''origin'', ''o/cat''), ?o)]"
  have k: "KEY_CACHE example_env @ filename_of ''cat'' @ ''_''
            @ getIndexName (ResizeStyle_new (params_of ''cat'')) = ''c/cat_full''"
    "KEY_ORIGINAL example_env @ filename_of ''cat'' = ''o/cat''" by code_simp+
  have b: "BUCKET_CACHE example_env = ''cache''" "BUCKET_ORIGINAL example_env = ''origin''"
    by code_simp+
  have g1: "fst (s3_getObject example_env ''cache'' ''c/cat_full'' ?w) = Inl (Error ''NoSuchKey'')"
    by (simp add: s3_getObject_def example_env_def example_world_def Let_def)
  have g2: "fst (s3_getObject example_env ''origin'' ''o/cat'' ?w) = Inr ?o"
    by (simp add: s3_getObject_def example_env_def example_world_def Let_def)
  have d: "metadata_deleted ?o" by (simp add: metadata_deleted_def truthy_def)
  have t: "trace ?w = []" by (simp add: example_world_def)
  from C6_deleted [of example_env "''cat''" ?w "Error ''NoSuchKey''" ?o] g1 g2 d
  show ?thesis unfolding k b by (simp add: t)
qed

text \<open>
  C5 fails when the put of the original fails: lines 209 and 210 then end the waterfall
  with \<open>UploadFailedException\<close>, which only logs. For the request \<open>cat\<close> with an
  empty cache, an origin object that is not deleted and a failing put, there is no
  response and nothing is stored.
\<close>

theorem C5_upload_fails_counterexample:
  "\<not> isValid (ResizeStyle_new (params_of ''cat''))
   \<and> fst (s3_getObject example_env_put_fails
         ''cache'' ''c/cat_full''
         (example_world [((''origin'', ''o/cat''),
            \<lparr>Body = ''hi'', ContentType = ''image/png'', Metadata = []\<rparr>)]))
     = Inl (Error ''NoSuchKey'')
   \<and> fst (s3_getObject example_env_put_fails
         ''origin'' ''o/cat''
         (example_world [((''origin'', ''o/cat''),
            \<lparr>Body = ''hi'', ContentType = ''image/png'', Metadata = []\<rparr>)]))
     = Inr \<lparr>Body = ''hi'', ContentType = ''image/png'', Metadata = []\<rparr>
   \<and> \<not> metadata_deleted \<lparr>Body = ''hi'', ContentType = ''image/png'', Metadata = []\<rparr>
   \<and> fst (handler example_env_put_fails ''cat''
         (example_world [((''origin'', ''o/cat''),
            \<lparr>Body = ''hi'', ContentType = ''image/png'', Metadata = []\<rparr>)]))
     = \<lparr>waterfall_err = Some UploadFailedException, callback_payload = None\<rparr>
   \<and> objects (snd (handler example_env_put_fails
         ''cat''
         (example_world [((''origin'', ''o/cat''),
            \<lparr>Body = ''hi'', ContentType = ''image/png'', Metadata = []\<rparr>)])))
       (''cache'', ''c/cat_full'') = None"
  by code_simp

text \<open>
  C5, amended. For every request whose style token yields an invalid style, when the cache
  lookup misses and the origin get succeeds without the deleted flag, the handler puts the
  original bytes under the cache key prefix, file name and \<open>_full\<close>, with the original
  content type. When that put succeeds it calls back with status 200, the original bytes
  in base64 and the original content type, and the cache holds the original. When the put
  fails the waterfall ends with \<open>UploadFailedException\<close>, there is no response and the
  buckets are unchanged.
\<close>

theorem C5_pass_through:
  assumes "\<not> isValid (ResizeStyle_new (params_of p))"
    and "fst (s3_getObject ev (BUCKET_CACHE ev) (KEY_CACHE ev @ filename_of p @ ''_full'') w)
           = Inl e"
    and "fst (s3_getObject ev (BUCKET_ORIGINAL ev) (KEY_ORIGINAL ev @ filename_of p) w) = Inr obj"
    and "\<not> metadata_deleted obj"
  shows "(s3_put_fault ev (BUCKET_CACHE ev) (KEY_CACHE ev @ filename_of p @ ''_full'') = None
          \<longrightarrow> callback_payload (fst (handler ev p w)) =
                 Some \<lparr>statusCode = 200, headers = [(''Content-Type'', ContentType obj)],
                       isBase64Encoded = True, body = base64 (Body obj)\<rparr>
              \<and> objects (snd (handler ev p w))
                   (BUCKET_CACHE ev, KEY_CACHE ev @ filename_of p @ ''_full'')
                 = Some \<lparr>Body = Body obj, ContentType = ContentType obj, Metadata = []\<rparr>
              \<and> trace (snd (handler ev p w)) =
                  trace w @
                  [S3GetObject (BUCKET_CACHE ev) (KEY_CACHE ev @ filename_of p @ ''_full''),
                   S3GetObject (BUCKET_ORIGINAL ev) (KEY_ORIGINAL ev @ filename_of p),
                   S3PutObject (BUCKET_CACHE ev) (KEY_CACHE ev @ filename_of p @ ''_full'')
                     (Body obj) (ContentType obj),
                   ConsoleLog (JStr ''catch exception''), ConsoleLog (JNum 200)])
       \<and> (s3_put_fault ev (BUCKET_CACHE ev) (KEY_CACHE ev @ filename_of p @ ''_full'') \<noteq> None
          \<longrightarrow> waterfall_err (fst (handler ev p w)) = Some UploadFailedException
              \<and> callback_payload (fst (handler ev p w)) = None
              \<and> objects (snd (handler ev p w)) = objects w
              \<and> trace (snd (handler ev p w)) =
                  trace w @
                  [S3GetObject (BUCKET_CACHE ev) (KEY_CACHE ev @ filename_of p @ ''_full''),
                   S3GetObject (BUCKET_ORIGINAL ev) (KEY_ORIGINAL ev @ filename_of p),
                   S3PutObject (BUCKET_CACHE ev) (KEY_CACHE ev @ filename_of p @ ''_full'')
                     (Body obj) (ContentType obj),
                   ConsoleLog (JStr ''catch exception''),
                   ConsoleLog (JStr ''Upload Failed Exception'')])"
proof -
  let ?k = "KEY_CACHE ev @ filename_of p @ ''_full''"
  let ?rs = "ResizeStyle_new (params_of p)"
  have key: "getIndexName ?rs = ''full''" by (rule invalid_key [OF assms(1)])
  let ?w2 = "record_event (S3GetObject (BUCKET_ORIGINAL ev) (KEY_ORIGINAL ev @ filename_of p))
                (record_event (S3GetObject (BUCKET_CACHE ev) ?k) w)"
  let ?put = "S3PutObject (BUCKET_CACHE ev) ?k (Body obj) (ContentType obj)"
  have w_ok: "waterfall ev ?rs (filename_of p) (filename_of p @ ''_full'') (filename_of p) w =
           (Inl (CouldNotResizeException_new (Body obj) (ContentType obj)),
            (record_event ?put ?w2)
              \<lparr>objects := (objects ?w2)((BUCKET_CACHE ev, ?k) \<mapsto>
                  \<lparr>Body = Body obj, ContentType = ContentType obj, Metadata = []\<rparr>)\<rparr>)"
    if "s3_put_fault ev (BUCKET_CACHE ev) ?k = None"
    using download_miss [OF assms(2)] download_hit_after [OF assms(3)] assms(4)
    by (simp add: waterfall_def from_original_def task_cache_def task_original_def
        task_validate_def assms(1) upload_def s3_putObject_ok [OF that])
  have w_bad: "waterfall ev ?rs (filename_of p) (filename_of p @ ''_full'') (filename_of p) w =
           (Inl UploadFailedException, record_event ?put ?w2)"
    if "s3_put_fault ev (BUCKET_CACHE ev) ?k = Some x" for x
    using download_miss [OF assms(2)] download_hit_after [OF assms(3)] assms(4)
    by (simp add: waterfall_def from_original_def task_cache_def task_original_def
        task_validate_def assms(1) upload_def s3_putObject_fail [OF that])
  have h: "handler ev p w =
      (case waterfall ev ?rs (filename_of p) (filename_of p @ ''_full'') (filename_of p) w
       of (r, w') \<Rightarrow> final r w')"
    using handler_eq [of ev p w] by (simp add: key)
  show ?thesis
  proof (intro conjI impI)
    assume ok: "s3_put_fault ev (BUCKET_CACHE ev) ?k = None"
    note r = h [unfolded w_ok [OF ok]]
    show "callback_payload (fst (handler ev p w)) =
                 Some \<lparr>statusCode = 200, headers = [(''Content-Type'', ContentType obj)],
                       isBase64Encoded = True, body = base64 (Body obj)\<rparr>"
      by (simp add: r CouldNotResizeException_new_def envelope_def Payload_new_def Let_def)
    show "objects (snd (handler ev p w)) (BUCKET_CACHE ev, ?k)
                 = Some \<lparr>Body = Body obj, ContentType = ContentType obj, Metadata = []\<rparr>"
      by (simp add: r CouldNotResizeException_new_def Let_def console_log_def
          record_event_fields)
    show "trace (snd (handler ev p w)) =
                  trace w @
                  [S3GetObject (BUCKET_CACHE ev) ?k,
                   S3GetObject (BUCKET_ORIGINAL ev) (KEY_ORIGINAL ev @ filename_of p),
                   S3PutObject (BUCKET_CACHE ev) ?k (Body obj) (ContentType obj),
                   ConsoleLog (JStr ''catch exception''), ConsoleLog (JNum 200)]"
      by (simp add: r CouldNotResizeException_new_def envelope_def Payload_new_def Let_def
          console_log_def record_event_fields)
  next
    assume "s3_put_fault ev (BUCKET_CACHE ev) ?k \<noteq> None"
    then obtain x where bad: "s3_put_fault ev (BUCKET_CACHE ev) ?k = Some x" by blast
    note r = h [unfolded w_bad [OF bad]]
    show "waterfall_err (fst (handler ev p w)) = Some UploadFailedException"
      by (simp add: r Let_def)
    show "callback_payload (fst (handler ev p w)) = None"
      by (simp add: r Let_def)
    show "objects (snd (handler ev p w)) = objects w"
      by (simp add: r Let_def console_log_def record_event_fields)
    show "trace (snd (handler ev p w)) =
                  trace w @
                  [S3GetObject (BUCKET_CACHE ev) ?k,
                   S3GetObject (BUCKET_ORIGINAL ev) (KEY_ORIGINAL ev @ filename_of p),
                   S3PutObject (BUCKET_CACHE ev) ?k (Body obj) (ContentType obj),
                   ConsoleLog (JStr ''catch exception''),
                   ConsoleLog (JStr ''Upload Failed Exception'')]"
      by (simp add: r Let_def console_log_def record_event_fields ToString_def)
  qed
qed

theorem C5_pass_through_witness:
  "\<not> isValid (ResizeStyle_new (params_of ''cat/''))
   \<and> fst (s3_getObject example_env ''cache'' ''c/cat_full''
         (example_world [((''origin'', ''o/cat''),
            \<lparr>Body = ''hi'', ContentType = ''image/png'', Metadata = []\<rparr>)]))
     = Inl (Error ''NoSuchKey'')
   \<and> fst (s3_getObject example_env ''origin'' ''o/cat''
         (example_world [((''origin'', ''o/cat''),
            \<lparr>Body = ''hi'', ContentType = ''image/png'', Metadata = []\<rparr>)]))
     = Inr \<lparr>Body = ''hi'', ContentType = ''image/png'', Metadata = []\<rparr>
   \<and> \<not> metadata_deleted \<lparr>Body = ''hi'', ContentType = ''image/png'', Metadata = []\<rparr>
   \<and> s3_put_fault example_env ''cache'' ''c/cat_full'' = None
   \<and> callback_payload (fst (handler example_env ''cat/''
         (example_world [((''origin'', ''o/cat''),
            \<lparr>Body = ''hi'', ContentType = ''image/png'', Metadata = []\<rparr>)])))
     = Some \<lparr>statusCode = 200, headers = [(''Content-Type'', ''image/png'')],
             isBase64Encoded = True, body = ''aGk=''\<rparr>
   \<and> objects (snd (handler example_env ''cat/''
         (example_world [((''origin'', ''o/cat''),
            \<lparr>Body = ''hi'', ContentType = ''image/png'', Metadata = []\<rparr>)])))
       (''cache'', ''c/cat_full'')
     = Some \<lparr>Body = ''hi'', ContentType = ''image/png'', Metadata = []\<rparr>
   \<and> trace (snd (handler example_env ''cat/''
         (example_world [((''origin'', ''o/cat''),
            \<lparr>Body = ''hi'', ContentType = ''image/png'', Metadata = []\<rparr>)])))
     = [S3GetObject ''cache'' ''c/cat_full'', S3GetObject ''origin'' ''o/cat'',
        S3PutObject ''cache'' ''c/cat_full'' ''hi'' ''image/png'',
        ConsoleLog (JStr ''catch exception''), ConsoleLog (JNum 200)]"
proof -
  let ?o = "\<lparr>Body = ''hi'', ContentType = ''image/png'', Metadata = []\<rparr>"
  let ?w = "example_world [((''origin'', ''o/cat''), ?o)]"
  have v: "\<not> isValid (ResizeStyle_new (params_of ''cat/''))" by code_simp
  have k: "KEY_CACHE example_env @ filename_of ''cat/'' @ ''_full'' = ''c/cat_full''"
    "KEY_ORIGINAL example_env @ filename_of ''cat/'' = ''o/cat''" by code_simp+
  have b: "BUCKET_CACHE example_env = ''cache''" "BUCKET_ORIGINAL example_env = ''origin''"
    by code_simp+
  have g1: "fst (s3_getObject example_env ''cache'' ''c/cat_full'' ?w) = Inl (Error ''NoSuchKey'')"
    by (simp add: s3_getObject_def example_env_def example_world_def Let_def)
  have g2: "fst (s3_getObject example_env ''origin'' ''o/cat'' ?w) = Inr ?o"
    by (simp add: s3_getObject_def example_env_def example_world_def Let_def)
  have d: "\<not> metadata_deleted ?o" by (simp add: metadata_deleted_def truthy_def)
  have f: "s3_put_fault example_env ''cache'' ''c/cat_full'' = None"
    by (simp add: example_env_def)
  have e: "base64 ''hi'' = ''aGk=''" by code_simp
  have t: "trace ?w = []" by (simp add: example_world_def)
  from C5_pass_through [of "''cat/''" example_env ?w "Error ''NoSuchKey''" ?o] v g1 g2 d f
  show ?thesis unfolding k b by (simp add: e t del: base64.simps)
qed

text \<open>
  C10. Whatever error the cache get returns, the handler goes on exactly as the tasks from
  the origin fetch on prescribe, started in the world after the cache get: the error
  itself is dropped. The next call recorded after the cache get is the origin get. And a
  request that ends with \<open>NotFoundException\<close> does so because the origin get failed.
\<close>

theorem C10_cache_error_is_miss:
  assumes "fst (s3_getObject ev (BUCKET_CACHE ev)
                  (KEY_CACHE ev @ filename_of p @ ''_'' @ getIndexName (ResizeStyle_new (params_of p)))
                  w) = Inl e"
  shows "handler ev p w =
           (case from_original ev (ResizeStyle_new (params_of p)) (filename_of p)
                   (filename_of p @ ''_'' @ getIndexName (ResizeStyle_new (params_of p)))
                   (filename_of p)
                   (record_event
                      (S3GetObject (BUCKET_CACHE ev)
                         (KEY_CACHE ev @ filename_of p @ ''_''
                            @ getIndexName (ResizeStyle_new (params_of p)))) w)
            of (r, w') \<Rightarrow> final r w')
       \<and> prefix
           (trace w @ [S3GetObject (BUCKET_CACHE ev)
                         (KEY_CACHE ev @ filename_of p @ ''_''
                            @ getIndexName (ResizeStyle_new (params_of p))),
                       S3GetObject (BUCKET_ORIGINAL ev) (KEY_ORIGINAL ev @ filename_of p)])
           (trace (snd (handler ev p w)))
       \<and> (waterfall_err (fst (handler ev p w)) = Some NotFoundException
            \<longrightarrow> (\<exists>e'. fst (s3_getObject ev (BUCKET_ORIGINAL ev)
                              (KEY_ORIGINAL ev @ filename_of p) w) = Inl e'))"
proof -
  let ?k = "KEY_CACHE ev @ filename_of p @ ''_'' @ getIndexName (ResizeStyle_new (params_of p))"
  let ?w1 = "record_event (S3GetObject (BUCKET_CACHE ev) ?k) w"
  let ?c = "from_original ev (ResizeStyle_new (params_of p)) (filename_of p)
                   (filename_of p @ ''_'' @ getIndexName (ResizeStyle_new (params_of p)))
                   (filename_of p) ?w1"
  have h: "handler ev p w = (case ?c of (r, w') \<Rightarrow> final r w')"
    using download_miss [OF assms]
    by (simp add: handler_def Let_def waterfall_def task_cache_def filename_of_def params_of_def)
  have "prefix (trace ?w1 @ [S3GetObject (BUCKET_ORIGINAL ev) (KEY_ORIGINAL ev @ filename_of p)])
          (trace (snd ?c))"
    by (rule from_original_trace)
  moreover have "prefix (trace (snd ?c)) (trace (snd (final (fst ?c) (snd ?c))))"
    by (rule final_trace)
  ultimately have "prefix (trace ?w1 @ [S3GetObject (BUCKET_ORIGINAL ev) (KEY_ORIGINAL ev @ filename_of p)])
          (trace (snd (final (fst ?c) (snd ?c))))"
    by (rule prefix_order.trans)
  then have "prefix
           (trace w @ [S3GetObject (BUCKET_CACHE ev) ?k,
                       S3GetObject (BUCKET_ORIGINAL ev) (KEY_ORIGINAL ev @ filename_of p)])
           (trace (snd (handler ev p w)))"
    by (simp add: h record_event_fields case_prod_beta)
  note pre = this
  have "\<exists>e'. fst (s3_getObject ev (BUCKET_ORIGINAL ev) (KEY_ORIGINAL ev @ filename_of p) w) = Inl e'"
    if "waterfall_err (fst (handler ev p w)) = Some NotFoundException"
  proof -
    from that have "fst ?c = Inl NotFoundException"
      by (simp add: h case_prod_beta final_err split: sum.splits)
    from from_original_NotFound [OF this] show ?thesis
      by (simp add: s3_getObject_record_event)
  qed
  with h pre show ?thesis by blast
qed

theorem C10_cache_error_is_miss_witness:
  "fst (s3_getObject example_env_cache_denied ''cache'' ''c/cat_full''
          (example_world [((''cache'', ''c/cat_full''),
              \<lparr>Body = ''old'', ContentType = ''image/gif'', Metadata = []\<rparr>),
            ((''origin'', ''o/cat''),
              \<lparr>Body = ''hi'', ContentType = ''image/png'', Metadata = []\<rparr>)]))
     = Inl (Error ''AccessDenied'')
   \<and> prefix [S3GetObject ''cache'' ''c/cat_full'', S3GetObject ''origin'' ''o/cat'']
       (trace (snd (handler example_env_cache_denied ''cat''
          (example_world [((''cache'', ''c/cat_full''),
              \<lparr>Body = ''old'', ContentType = ''image/gif'', Metadata = []\<rparr>),
            ((''origin'', ''o/cat''),
              \<lparr>Body = ''hi'', ContentType = ''image/png'', Metadata = []\<rparr>)]))))
   \<and> callback_payload (fst (handler example_env_cache_denied ''cat''
          (example_world [((''cache'', ''c/cat_full''),
              \<lparr>Body = ''old'', ContentType = ''image/gif'', Metadata = []\<rparr>),
            ((''origin'', ''o/cat''),
              \<lparr>Body = ''hi'', ContentType = ''image/png'', Metadata = []\<rparr>)])))
     = Some \<lparr>statusCode = 200, headers = [(''Content-Type'', ''image/png'')],
             isBase64Encoded = True, body = ''aGk=''\<rparr>"
proof -
  let ?ev = example_env_cache_denied
  let ?w = "example_world [((''cache'', ''c/cat_full''),
              \<lparr>Body = ''old'', ContentType = ''image/gif'', Metadata = []\<rparr>),
            ((''origin'', ''o/cat''),
              \<lparr>Body = ''hi'', ContentType = ''image/png'', Metadata = []\<rparr>)]"
  have k: "KEY_CACHE ?ev @ filename_of ''cat'' @ ''_''
            @ getIndexName (ResizeStyle_new (params_of ''cat'')) = ''c/cat_full''"
    "KEY_ORIGINAL ?ev @ filename_of ''cat'' = ''o/cat''" by code_simp+
  have b: "BUCKET_CACHE ?ev = ''cache''" "BUCKET_ORIGINAL ?ev = ''origin''"
    by code_simp+
  have g: "fst (s3_getObject ?ev ''cache'' ''c/cat_full'' ?w) = Inl (Error ''AccessDenied'')"
    by (simp add: s3_getObject_def example_env_cache_denied_def example_env_def
        example_world_def Let_def)
  have t: "trace ?w = []" by (simp add: example_world_def)
  have c: "callback_payload (fst (handler ?ev ''cat'' ?w))
     = Some \<lparr>statusCode = 200, headers = [(''Content-Type'', ''image/png'')],
             isBase64Encoded = True, body = ''aGk=''\<rparr>" by code_simp
  note r = C10_cache_error_is_miss [of ?ev "''cat''" ?w "Error ''AccessDenied''",
      unfolded k b, OF g]
  from r [THEN conjunct2, THEN conjunct1]
  have "prefix [S3GetObject ''cache'' ''c/cat_full'', S3GetObject ''origin'' ''o/cat'']
       (trace (snd (handler ?ev ''cat'' ?w)))"
    by (simp add: t)
  with g c show ?thesis by blast
qed

end
